theory Spec2Isabelle
  imports Main "HOL-Library.Sublist" "HOL-Library.AList"
begin

section \<open>JavaScript strings\<close>

text \<open>
  A JavaScript string is modelled as a \<^typ>\<open>string\<close> whose characters are the code units
  \<open>0..255\<close> (Latin-1). Code units above 255 are outside the model.
\<close>

definition isWhiteSpace :: "char \<Rightarrow> bool" where
  \<comment> \<open>ECMAScript WhiteSpace and LineTerminator below 256: TAB, LF, VT, FF, CR, SP, NBSP\<close>
  "isWhiteSpace c =
     (c = CHR 0x09 \<or> c = CHR 0x0A \<or> c = CHR 0x0B \<or> c = CHR 0x0C \<or> c = CHR 0x0D \<or>
      c = CHR 0x20 \<or> c = CHR 0xA0)"

definition trim :: "string \<Rightarrow> string" where
  \<comment> \<open>\<open>String.prototype.trim\<close>\<close>
  "trim s = rev (dropWhile isWhiteSpace (rev (dropWhile isWhiteSpace s)))"

definition upperCaseLetters :: "char list" where
  \<comment> \<open>the code units below 256 that \<open>toLowerCase\<close> changes: \<open>A..Z\<close>, and \<open>0xC0..0xDE\<close>
      without the multiplication sign \<open>0xD7\<close>\<close>
  "upperCaseLetters = ''ABCDEFGHIJKLMNOPQRSTUVWXYZ'' @
     [CHR 0xC0, CHR 0xC1, CHR 0xC2, CHR 0xC3, CHR 0xC4, CHR 0xC5, CHR 0xC6, CHR 0xC7,
      CHR 0xC8, CHR 0xC9, CHR 0xCA, CHR 0xCB, CHR 0xCC, CHR 0xCD, CHR 0xCE, CHR 0xCF,
      CHR 0xD0, CHR 0xD1, CHR 0xD2, CHR 0xD3, CHR 0xD4, CHR 0xD5, CHR 0xD6, CHR 0xD8,
      CHR 0xD9, CHR 0xDA, CHR 0xDB, CHR 0xDC, CHR 0xDD, CHR 0xDE]"

definition lowerCaseLetters :: "char list" where
  \<comment> \<open>their lower-case forms, 32 code units further on\<close>
  "lowerCaseLetters = ''abcdefghijklmnopqrstuvwxyz'' @
     [CHR 0xE0, CHR 0xE1, CHR 0xE2, CHR 0xE3, CHR 0xE4, CHR 0xE5, CHR 0xE6, CHR 0xE7,
      CHR 0xE8, CHR 0xE9, CHR 0xEA, CHR 0xEB, CHR 0xEC, CHR 0xED, CHR 0xEE, CHR 0xEF,
      CHR 0xF0, CHR 0xF1, CHR 0xF2, CHR 0xF3, CHR 0xF4, CHR 0xF5, CHR 0xF6, CHR 0xF8,
      CHR 0xF9, CHR 0xFA, CHR 0xFB, CHR 0xFC, CHR 0xFD, CHR 0xFE]"

definition lowerChar :: "char \<Rightarrow> char" where
  "lowerChar c = (case map_of (zip upperCaseLetters lowerCaseLetters) c of Some l \<Rightarrow> l | None \<Rightarrow> c)"

definition toLowerCase :: "string \<Rightarrow> string" where
  "toLowerCase s = map lowerChar s"

definition startsWith :: "string \<Rightarrow> string \<Rightarrow> bool" where
  \<comment> \<open>\<open>s.startsWith(k)\<close>\<close>
  "startsWith s k = (take (length k) s = k)"

fun includes_str :: "string \<Rightarrow> string \<Rightarrow> bool" where
  \<comment> \<open>\<open>s.includes(k)\<close>: \<open>k\<close> occurs at some position of \<open>s\<close>\<close>
  "includes_str [] k = (k = [])"
| "includes_str (c # cs) k = (if startsWith (c # cs) k then True else includes_str cs k)"

definition digitChar :: "nat \<Rightarrow> char" where
  "digitChar d = ''0123456789'' ! d"

fun natToString :: "nat \<Rightarrow> string" where
  "natToString n = (if n < 10 then [digitChar n] else natToString (n div 10) @ [digitChar (n mod 10)])"

declare natToString.simps [simp del]

definition numberToString :: "int \<Rightarrow> string" where
  \<comment> \<open>\<open>String(n)\<close> for an integral number; JavaScript switches to exponent notation
      from \<open>1e21\<close> on, which the tool's declared range \<open>1..10000\<close> never reaches\<close>
  "numberToString n = (if n < 0 then CHR ''-'' # natToString (nat (- n)) else natToString (nat n))"

section \<open>database/db.ts: query validation\<close>

definition dangerousKeywords :: "string list" where
  "dangerousKeywords = [''drop'', ''delete'', ''update'', ''insert'', ''alter'', ''create'', ''truncate'']"

fun noKeywordIncluded :: "string list \<Rightarrow> string \<Rightarrow> bool" where
  \<comment> \<open>the \<open>for (const keyword of dangerousKeywords)\<close> loop with its early \<open>return false\<close>\<close>
  "noKeywordIncluded [] s = True"
| "noKeywordIncluded (keyword # ks) s = (if includes_str s keyword then False else noKeywordIncluded ks s)"

definition validateQuery :: "string \<Rightarrow> bool" where
  "validateQuery sql =
     (let sanitizedSql = trim (toLowerCase sql)
      in if \<not> startsWith sanitizedSql ''select'' then False
         else noKeywordIncluded dangerousKeywords sanitizedSql)"

section \<open>tools/dbQueryTool.ts: the limit clause\<close>

record DbQueryToolInput =
  sql :: string
  limit :: "int option"

definition applyLimit :: "string \<Rightarrow> int option \<Rightarrow> string" where
  \<comment> \<open>\<open>let sql = input.sql.trim(); if (input.limit && input.limit > 0) { if
      (!sql.toLowerCase().includes('limit')) sql += ` LIMIT ${input.limit}` }\<close>, the
      fragment that \<open>streamExecute\<close>, \<open>execute\<close> and \<open>executeStreamingTool\<close> all carry\<close>
  "applyLimit s lim =
     (let sql0 = trim s
      in case lim of
           None \<Rightarrow> sql0
         | Some n \<Rightarrow>
             if n \<noteq> 0 \<and> n > 0
             then (if \<not> includes_str (toLowerCase sql0) ''limit''
                   then sql0 @ '' LIMIT '' @ numberToString n else sql0)
             else sql0)"

section \<open>The JavaScript \<open>Date\<close> operations that db.ts calls\<close>

text \<open>
  Time values are milliseconds since 1970-01-01T00:00:00Z. The process environment enters
  through the local time zone adjustment \<open>tza\<close> (local time minus UTC, in milliseconds),
  taken as constant over the dates involved. The calendar functions follow ECMAScript's
  \<open>Day\<close>, \<open>MakeDay\<close>, \<open>YearFromTime\<close>, \<open>MonthFromTime\<close> and \<open>DateFromTime\<close> on the
  proleptic Gregorian calendar.
\<close>

datatype thrown = Error string | RangeError string | NonError

fun messageOr :: "string \<Rightarrow> thrown \<Rightarrow> string" where
  \<comment> \<open>\<open>error instanceof Error ? error.message : dflt\<close>\<close>
  "messageOr dflt (Error m) = m"
| "messageOr dflt (RangeError m) = m"
| "messageOr dflt NonError = dflt"

definition msPerDay :: int where
  "msPerDay = 86400000"

definition Day :: "int \<Rightarrow> int" where
  "Day t = t div msPerDay"

definition TimeWithinDay :: "int \<Rightarrow> int" where
  "TimeWithinDay t = t mod msPerDay"

definition daysFromCivil :: "int \<Rightarrow> int \<Rightarrow> int \<Rightarrow> int" where
  \<comment> \<open>day number of year \<open>y\<close>, month \<open>m\<close> (1..12), day of month \<open>d\<close>\<close>
  "daysFromCivil y m d =
     (let y1 = (if m \<le> 2 then y - 1 else y);
          era = y1 div 400;
          yoe = y1 - era * 400;
          doy = (153 * (if m > 2 then m - 3 else m + 9) + 2) div 5 + d - 1;
          doe = yoe * 365 + yoe div 4 - yoe div 100 + doy
      in era * 146097 + doe - 719468)"

definition civilFromDays :: "int \<Rightarrow> int \<times> int \<times> int" where
  \<comment> \<open>year, month (1..12) and day of month of a day number\<close>
  "civilFromDays z =
     (let z1 = z + 719468;
          era = z1 div 146097;
          doe = z1 - era * 146097;
          yoe = (doe - doe div 1460 + doe div 36524 - doe div 146096) div 365;
          doy = doe - (365 * yoe + yoe div 4 - yoe div 100);
          mp = (5 * doy + 2) div 153;
          d = doy - (153 * mp + 2) div 5 + 1;
          m = (if mp < 10 then mp + 3 else mp - 9);
          y = yoe + era * 400
      in (if m \<le> 2 then y + 1 else y, m, d))"

definition YearFromTime :: "int \<Rightarrow> int" where
  "YearFromTime t = fst (civilFromDays (Day t))"

definition MonthFromTime :: "int \<Rightarrow> int" where
  \<comment> \<open>0 is January\<close>
  "MonthFromTime t = fst (snd (civilFromDays (Day t))) - 1"

definition DateFromTime :: "int \<Rightarrow> int" where
  "DateFromTime t = snd (snd (civilFromDays (Day t)))"

definition MakeDay :: "int \<Rightarrow> int \<Rightarrow> int \<Rightarrow> int" where
  "MakeDay year month date = daysFromCivil (year + month div 12) (month mod 12 + 1) 1 + date - 1"

definition MakeDate :: "int \<Rightarrow> int \<Rightarrow> int" where
  "MakeDate day time = day * msPerDay + time"

definition LocalTime :: "int \<Rightarrow> int \<Rightarrow> int" where
  "LocalTime tza t = t + tza"

definition UTC :: "int \<Rightarrow> int \<Rightarrow> int" where
  "UTC tza t = t - tza"

definition TimeClip :: "int \<Rightarrow> int option" where
  \<comment> \<open>\<open>None\<close> is the invalid date (\<open>NaN\<close>)\<close>
  "TimeClip t = (if \<bar>t\<bar> > 8640000000000000 then None else Some t)"

definition newDate :: "int \<Rightarrow> int \<Rightarrow> int \<Rightarrow> int \<Rightarrow> int option" where
  \<comment> \<open>\<open>new Date(year, month, date)\<close>: the fields are local time\<close>
  "newDate tza year month date = TimeClip (UTC tza (MakeDate (MakeDay year month date) 0))"

definition getDate :: "int \<Rightarrow> int \<Rightarrow> int" where
  "getDate tza tv = DateFromTime (LocalTime tza tv)"

definition setDate :: "int \<Rightarrow> int \<Rightarrow> int \<Rightarrow> int option" where
  "setDate tza tv dt =
     (let t = LocalTime tza tv;
          nd = MakeDate (MakeDay (YearFromTime t) (MonthFromTime t) dt) (TimeWithinDay t)
      in TimeClip (UTC tza nd))"

definition pad :: "nat \<Rightarrow> string \<Rightarrow> string" where
  \<comment> \<open>left padding with zeros to a width\<close>
  "pad w s = replicate (w - length s) (CHR ''0'') @ s"

definition isoDate :: "int \<Rightarrow> string" where
  \<comment> \<open>\<open>toISOString().split('T')[0]\<close>: the UTC fields; years outside 0..9999 carry a sign
      and six digits\<close>
  "isoDate tv =
     (let y = YearFromTime tv;
          ys = (if 0 \<le> y \<and> y \<le> 9999 then pad 4 (natToString (nat y))
                else (if y < 0 then ''-'' else ''+'') @ pad 6 (natToString (nat \<bar>y\<bar>)))
      in ys @ ''-'' @ pad 2 (natToString (nat (MonthFromTime tv + 1)))
            @ ''-'' @ pad 2 (natToString (nat (DateFromTime tv))))"

definition convertDate :: "int \<Rightarrow> int \<Rightarrow> thrown + string" where
  \<comment> \<open>\<open>const epochDate = new Date(1970, 0, 1); epochDate.setDate(epochDate.getDate() +
      value.days); epochDate.toISOString().split('T')[0]\<close>; \<open>toISOString\<close> throws on the
      invalid date\<close>
  "convertDate tza days =
     (case newDate tza 1970 0 1 of
        None \<Rightarrow> Inl (RangeError ''Invalid time value'')
      | Some epochDate \<Rightarrow>
          (case setDate tza epochDate (getDate tza epochDate + days) of
             None \<Rightarrow> Inl (RangeError ''Invalid time value'')
           | Some tv \<Rightarrow> Inr (isoDate tv)))"

section \<open>database/db.ts: normalising the rows\<close>

text \<open>
  Values read from the store. A number is modelled by the integer it holds; fractional
  numbers, and the rounding of a bigint beyond \<open>2^53\<close> by \<open>Number\<close>, are outside the model.
\<close>

datatype jsval =
    JNull
  | JBool bool
  | JNum int
  | JBigInt int
  | JStr string
  | JArr "jsval list"
  | JObj "(string \<times> jsval) list"

fun daysField :: "jsval \<Rightarrow> int option" where
  \<comment> \<open>\<open>value && typeof value === 'object' && 'days' in value && typeof value.days ===
      'number'\<close>: the days of a DuckDB date object\<close>
  "daysField (JObj fs) = (case map_of fs ''days'' of Some (JNum d) \<Rightarrow> Some d | _ \<Rightarrow> None)"
| "daysField _ = None"

fun convertBigIntsToNumbers :: "int \<Rightarrow> jsval \<Rightarrow> thrown + jsval"
  and convertItems :: "int \<Rightarrow> jsval list \<Rightarrow> thrown + jsval list"
  and convertFields :: "int \<Rightarrow> (string \<times> jsval) list \<Rightarrow> thrown + (string \<times> jsval) list"
where
  "convertBigIntsToNumbers tza (JBigInt n) = Inr (JNum n)"
| "convertBigIntsToNumbers tza (JArr xs) =
     (case convertItems tza xs of Inl e \<Rightarrow> Inl e | Inr ys \<Rightarrow> Inr (JArr ys))"
| "convertBigIntsToNumbers tza (JObj fs) =
     (case convertFields tza fs of Inl e \<Rightarrow> Inl e | Inr gs \<Rightarrow> Inr (JObj gs))"
| "convertBigIntsToNumbers tza JNull = Inr JNull"
| "convertBigIntsToNumbers tza (JBool b) = Inr (JBool b)"
| "convertBigIntsToNumbers tza (JNum n) = Inr (JNum n)"
| "convertBigIntsToNumbers tza (JStr s) = Inr (JStr s)"
| "convertItems tza [] = Inr []"
| "convertItems tza (x # xs) =
     (case convertBigIntsToNumbers tza x of
        Inl e \<Rightarrow> Inl e
      | Inr y \<Rightarrow> (case convertItems tza xs of Inl e \<Rightarrow> Inl e | Inr ys \<Rightarrow> Inr (y # ys)))"
| "convertFields tza [] = Inr []"
| "convertFields tza ((key, v) # fs) =
     (case (case daysField v of
              Some days \<Rightarrow> (case convertDate tza days of Inl e \<Rightarrow> Inl e | Inr s \<Rightarrow> Inr (JStr s))
            | None \<Rightarrow> convertBigIntsToNumbers tza v) of
        Inl e \<Rightarrow> Inl e
      | Inr w \<Rightarrow> (case convertFields tza fs of Inl e \<Rightarrow> Inl e | Inr gs \<Rightarrow> Inr ((key, w) # gs)))"

section \<open>database/db.ts: the database manager\<close>

text \<open>
  The store is what \<open>connection.runAndReadAll\<close> does with a query text: it throws, or it
  gives the column names and the raw rows. A \<open>null\<close> connection is \<open>None\<close>. Every function
  that talks to the store returns, next to its result, the list of query texts it sent.
  \<open>localTZA\<close> is the time zone of the process, which the \<open>Date\<close> calls read.
\<close>

record DatabaseManager =
  initialized :: bool
  connection :: "(string \<Rightarrow> thrown + (string list \<times> jsval list)) option"
  localTZA :: int

record QueryResponse =
  data :: "jsval list"
  columns :: "string list"
  rowCount :: nat

definition executeQuery :: "DatabaseManager \<Rightarrow> string \<Rightarrow> string list \<times> (thrown + QueryResponse)" where
  \<comment> \<open>\<open>convertBigIntsToNumbers(rawRows)\<close> on the array of raw rows is \<open>convertItems\<close> on the
      rows; \<open>executionTime\<close> is read from the clock and left out\<close>
  "executeQuery db q =
     (case connection db of
        None \<Rightarrow> ([], Inl (Error ''Database not initialized''))
      | Some run \<Rightarrow>
          if \<not> initialized db then ([], Inl (Error ''Database not initialized''))
          else ([q],
                case run q of
                  Inl e \<Rightarrow> Inl e
                | Inr (cols, rawRows) \<Rightarrow>
                    (case convertItems (localTZA db) rawRows of
                       Inl e \<Rightarrow> Inl e
                     | Inr rows \<Rightarrow> Inr \<lparr>data = rows, columns = cols, rowCount = length rows\<rparr>)))"

text \<open>
  What a finished asynchronous generator did: the values it yielded, and the exception that
  ended it, if one did.
\<close>

record 'a generated =
  yielded :: "'a list"
  failure :: "thrown option"

function sliceLoop :: "nat \<Rightarrow> nat \<Rightarrow> 'a list \<Rightarrow> 'a list list option" where
  \<comment> \<open>\<open>for (let i = 0; i < rows.length; i += chunkSize) yield rows.slice(i, i + chunkSize)\<close>;
      with \<open>chunkSize = 0\<close> and a row left the loop never ends: \<open>None\<close>\<close>
  "sliceLoop chunkSize i rows =
     (if \<not> i < length rows then Some []
      else if chunkSize = 0 then None
      else map_option ((#) (take chunkSize (drop i rows))) (sliceLoop chunkSize (i + chunkSize) rows))"
  by pat_completeness auto

termination
  by (relation "measure (\<lambda>(chunkSize, i, rows). length rows - i)") auto

declare sliceLoop.simps [simp del]

definition executeStreamingQuery ::
  "DatabaseManager \<Rightarrow> string \<Rightarrow> nat \<Rightarrow> (string list \<times> jsval list generated) option" where
  "executeStreamingQuery db q chunkSize =
     (case connection db of
        None \<Rightarrow> Some ([], \<lparr>yielded = [], failure = Some (Error ''Database not initialized'')\<rparr>)
      | Some run \<Rightarrow>
          if \<not> initialized db
          then Some ([], \<lparr>yielded = [], failure = Some (Error ''Database not initialized'')\<rparr>)
          else (case run q of
                  Inl e \<Rightarrow> Some ([q], \<lparr>yielded = [], failure = Some e\<rparr>)
                | Inr (cols, rawRows) \<Rightarrow>
                    (case convertItems (localTZA db) rawRows of
                       Inl e \<Rightarrow> Some ([q], \<lparr>yielded = [], failure = Some e\<rparr>)
                     | Inr rows \<Rightarrow>
                         (case sliceLoop chunkSize 0 rows of
                            None \<Rightarrow> None
                          | Some chunks \<Rightarrow> Some ([q], \<lparr>yielded = chunks, failure = None\<rparr>)))))"

section \<open>tools/dbQueryTool.ts: the streaming tool\<close>

text \<open>
  The events, before \<open>JSON.stringify\<close>. Their timestamps and the execution time are read
  from the clock and are left out, and so are the pacing delays and the console output.
\<close>

datatype event =
    QueryStart string "string list"
  | DataChunk "jsval list" nat nat nat
  | QueryComplete nat nat
  | QueryError string

record streamState =
  emitted :: "event list"
  currentStreamChunk :: "jsval list"
  totalRows :: nat
  chunkNumber :: nat

definition emitChunk :: "streamState \<Rightarrow> streamState" where
  \<comment> \<open>\<open>chunkNumber++\<close> and the \<open>yield\<close> of a \<open>data_chunk\<close> event\<close>
  "emitChunk st =
     st\<lparr>chunkNumber := chunkNumber st + 1,
        emitted := emitted st @
          [DataChunk (currentStreamChunk st) (chunkNumber st + 1)
             (length (currentStreamChunk st)) (totalRows st)]\<rparr>"

definition pushRow :: "nat \<Rightarrow> streamState \<Rightarrow> jsval \<Rightarrow> streamState" where
  \<comment> \<open>the body of \<open>for (const row of dbChunk)\<close>\<close>
  "pushRow streamChunkSize st row =
     (let st1 = st\<lparr>currentStreamChunk := currentStreamChunk st @ [row],
                    totalRows := totalRows st + 1\<rparr>
      in if length (currentStreamChunk st1) \<ge> streamChunkSize
         then (emitChunk st1)\<lparr>currentStreamChunk := []\<rparr>
         else st1)"

fun forRows :: "nat \<Rightarrow> streamState \<Rightarrow> jsval list \<Rightarrow> streamState" where
  "forRows streamChunkSize st [] = st"
| "forRows streamChunkSize st (row # rows) = forRows streamChunkSize (pushRow streamChunkSize st row) rows"

fun forDbChunks :: "nat \<Rightarrow> streamState \<Rightarrow> jsval list list \<Rightarrow> streamState" where
  \<comment> \<open>\<open>for await (const dbChunk of ...)\<close> over the chunks the generator yielded\<close>
  "forDbChunks streamChunkSize st [] = st"
| "forDbChunks streamChunkSize st (dbChunk # rest) =
     forDbChunks streamChunkSize (forRows streamChunkSize st dbChunk) rest"

definition streamingBody :: "nat \<Rightarrow> jsval list generated \<Rightarrow> event list" where
  \<comment> \<open>\<open>executeStreamingTool\<close> after its \<open>query_start\<close>: the chunk loop, the final chunk and
      \<open>query_complete\<close>, or the \<open>catch\<close> block when the row source throws\<close>
  "streamingBody streamChunkSize gen =
     (let st = forDbChunks streamChunkSize
                 \<lparr>emitted = [], currentStreamChunk = [], totalRows = 0, chunkNumber = 0\<rparr>
                 (yielded gen)
      in case failure gen of
           Some e \<Rightarrow> emitted st @ [QueryError (messageOr ''Unknown error'' e)]
         | None \<Rightarrow>
             (let st2 = (if length (currentStreamChunk st) > 0 then emitChunk st else st)
              in emitted st2 @ [QueryComplete (totalRows st2) (chunkNumber st2)]))"

definition streamChunkSize :: nat where
  "streamChunkSize = 5"

definition dbChunkSize :: nat where
  "dbChunkSize = 50"

definition requiredMessage :: string where
  "requiredMessage = ''SQL query is required and must be a string''"

definition invalidMessage :: string where
  "invalidMessage = ''Invalid SQL query. Only SELECT statements are allowed. Dangerous keywords (DROP, DELETE, UPDATE, INSERT, etc.) are not permitted.''"

definition schemaProbe :: string where
  "schemaProbe = ''SELECT * FROM employees LIMIT 0''"

definition executeStreamingTool ::
  "DatabaseManager \<Rightarrow> DbQueryToolInput \<Rightarrow> (event list \<times> string list) option" where
  \<comment> \<open>the events yielded, in order, and the query texts sent to the store; \<open>None\<close> if the
      generator never finishes\<close>
  "executeStreamingTool db input =
     (if sql input = [] then Some ([QueryError requiredMessage], [])
      else if \<not> validateQuery (sql input) then Some ([QueryError invalidMessage], [])
      else (let sql1 = applyLimit (sql input) (limit input)
            in case executeQuery db schemaProbe of
                 (sent1, Inl e) \<Rightarrow> Some ([QueryError (messageOr ''Unknown error'' e)], sent1)
               | (sent1, Inr schemaResult) \<Rightarrow>
                   (case executeStreamingQuery db sql1 dbChunkSize of
                      None \<Rightarrow> None
                    | Some (sent2, gen) \<Rightarrow>
                        Some (QueryStart sql1 (columns schemaResult) # streamingBody streamChunkSize gen,
                              sent1 @ sent2))))"

datatype contentEntry = TextContent string

datatype streamResult = StreamResult "contentEntry list" nat

definition streamExecute ::
  "(jsval \<Rightarrow> string) \<Rightarrow> DatabaseManager \<Rightarrow> DbQueryToolInput \<Rightarrow>
     ((thrown + streamResult) \<times> string list) option" where
  \<comment> \<open>\<open>stringify\<close> is \<open>JSON.stringify\<close>; the result is \<open>{content, _meta: {totalRows}}\<close>, or
      the \<open>Error\<close> that the \<open>catch\<close> block throws again\<close>
  "streamExecute stringify db input =
     (if sql input = [] then Some (Inl (Error requiredMessage), [])
      else if \<not> validateQuery (sql input) then Some (Inl (Error invalidMessage), [])
      else (let sql1 = applyLimit (sql input) (limit input)
            in case executeStreamingQuery db sql1 1 of
                 None \<Rightarrow> None
               | Some (sent, gen) \<Rightarrow>
                   (case failure gen of
                      Some e \<Rightarrow> Some (Inl (Error (messageOr ''Unknown error occurred'' e)), sent)
                    | None \<Rightarrow>
                        Some (Inr (StreamResult
                                     (map (\<lambda>row. TextContent (stringify row)) (concat (yielded gen)))
                                     (length (concat (yielded gen)))),
                              sent))))"

datatype executeResult =
    ExecuteEvents "event list"
  | ExecuteError string

definition execute ::
  "DatabaseManager \<Rightarrow> DbQueryToolInput \<Rightarrow> (executeResult \<times> string list) option" where
  \<comment> \<open>the legacy path: \<open>{success: true, events: [...]}\<close> or \<open>{error: true, message}\<close>;
      \<open>JSON.parse\<close> gives back the event that \<open>JSON.stringify\<close> wrote\<close>
  "execute db input =
     (if sql input = [] then Some (ExecuteError requiredMessage, [])
      else if \<not> validateQuery (sql input) then Some (ExecuteError invalidMessage, [])
      else (let sql1 = applyLimit (sql input) (limit input);
                limit1 = (case limit input of
                            None \<Rightarrow> None
                          | Some n \<Rightarrow> if n \<noteq> 0 then Some n else None)
            in case executeStreamingTool db \<lparr>sql = sql1, limit = limit1\<rparr> of
                 None \<Rightarrow> None
               | Some (events, sent) \<Rightarrow> Some (ExecuteEvents events, sent)))"

section \<open>server.ts: the session registry\<close>

text \<open>
  The \<open>Map\<close> of sessions in insertion order; \<open>endpoint\<close> stands for the server and
  transport pair of a session, and the dates are milliseconds.
\<close>

record SessionInfo =
  endpoint :: nat
  createdAt :: int
  lastAccessed :: int

type_synonym sessions = "(string \<times> SessionInfo) list"

record response =
  status :: nat
  success :: bool
  message :: string

definition deleteSession :: "string \<Rightarrow> sessions \<Rightarrow> sessions \<times> response" where
  \<comment> \<open>the handler of \<open>DELETE /mcp/:sessionId\<close>\<close>
  "deleteSession sessionId ss =
     (if map_of ss sessionId \<noteq> None
      then (AList.delete sessionId ss,
            \<lparr>status = 200, success = True,
             message = ''Session '' @ sessionId @ '' terminated successfully''\<rparr>)
      else (ss,
            \<lparr>status = 404, success = False,
             message = ''Session '' @ sessionId @ '' not found''\<rparr>))"

fun deleteAll :: "string list \<Rightarrow> sessions \<Rightarrow> sessions" where
  \<comment> \<open>\<open>for (const sessionId of expiredSessions) this.sessions.delete(sessionId)\<close>\<close>
  "deleteAll [] ss = ss"
| "deleteAll (sessionId # rest) ss = deleteAll rest (AList.delete sessionId ss)"

definition cleanupExpiredSessions :: "int \<Rightarrow> int \<Rightarrow> sessions \<Rightarrow> sessions" where
  "cleanupExpiredSessions now sessionTTL ss =
     deleteAll (map fst (filter (\<lambda>(sessionId, session). now - lastAccessed session > sessionTTL) ss)) ss"

section \<open>Observing an event sequence\<close>

text \<open>
  The \<open>data_chunk\<close> events of a sequence, in order, as (chunk, chunkNumber, rowsInChunk,
  totalRowsSoFar), and the projections to each field.
\<close>

fun dataChunks :: "event list \<Rightarrow> (jsval list \<times> nat \<times> nat \<times> nat) list" where
  "dataChunks [] = []"
| "dataChunks (DataChunk rows n k t # evs) = (rows, n, k, t) # dataChunks evs"
| "dataChunks (QueryStart q cols # evs) = dataChunks evs"
| "dataChunks (QueryComplete t c # evs) = dataChunks evs"
| "dataChunks (QueryError m # evs) = dataChunks evs"

definition chunks :: "event list \<Rightarrow> jsval list list" where
  "chunks evs = map fst (dataChunks evs)"

definition chunkNumbers :: "event list \<Rightarrow> nat list" where
  "chunkNumbers evs = map (\<lambda>d. fst (snd d)) (dataChunks evs)"

definition rowsInChunks :: "event list \<Rightarrow> nat list" where
  "rowsInChunks evs = map (\<lambda>d. fst (snd (snd d))) (dataChunks evs)"

definition totalRowsSoFars :: "event list \<Rightarrow> nat list" where
  "totalRowsSoFars evs = map (\<lambda>d. snd (snd (snd d))) (dataChunks evs)"

fun isDataChunk :: "event \<Rightarrow> bool" where
  "isDataChunk (DataChunk rows n k t) = True"
| "isDataChunk _ = False"

section \<open>Proof devices for the chunk loop\<close>

text \<open>
  The invariant of the chunk loop: the buffer is shorter than a chunk, every event emitted
  is a full chunk numbered in sequence, and the counters agree with what was emitted.
\<close>

definition loopInv :: "nat \<Rightarrow> streamState \<Rightarrow> bool" where
  "loopInv C st =
     (length (currentStreamChunk st) < C \<and>
      list_all isDataChunk (emitted st) \<and>
      dataChunks (emitted st) =
        map (\<lambda>i. (take C (drop (i * C) (concat (chunks (emitted st)))), Suc i, C, Suc i * C))
          [0..<chunkNumber st] \<and>
      length (concat (chunks (emitted st))) = chunkNumber st * C \<and>
      totalRows st = chunkNumber st * C + length (currentStreamChunk st))"

text \<open>The loop variables as \<open>executeStreamingTool\<close> initialises them.\<close>

definition initState :: streamState where
  "initState = \<lparr>emitted = [], currentStreamChunk = [], totalRows = 0, chunkNumber = 0\<rparr>"

text \<open>
  The number of \<open>data_chunk\<close> events after \<open>R\<close> rows: the buffer is flushed at the
  end only when the row source did not throw.
\<close>

definition chunkCount :: "nat \<Rightarrow> nat \<Rightarrow> thrown option \<Rightarrow> nat" where
  "chunkCount C R f = (case f of None \<Rightarrow> (R + C - 1) div C | Some e \<Rightarrow> R div C)"

section \<open>Proof devices for the database manager\<close>

text \<open>
  What \<open>executeQuery\<close> and \<open>executeStreamingQuery\<close> have in common: the rows read for a
  query text, normalised, or the exception; and the query texts that reach the store.
\<close>

definition readRows :: "DatabaseManager \<Rightarrow> string \<Rightarrow> thrown + jsval list" where
  "readRows db q =
     (case connection db of
        None \<Rightarrow> Inl (Error ''Database not initialized'')
      | Some run \<Rightarrow>
          if \<not> initialized db then Inl (Error ''Database not initialized'')
          else (case run q of
                  Inl e \<Rightarrow> Inl e
                | Inr (cols, rawRows) \<Rightarrow> convertItems (localTZA db) rawRows))"

definition sentTo :: "DatabaseManager \<Rightarrow> string \<Rightarrow> string list" where
  "sentTo db q = (if connection db = None \<or> \<not> initialized db then [] else [q])"

text \<open>The terminal events and the start event.\<close>

fun isTerminal :: "event \<Rightarrow> bool" where
  "isTerminal (QueryComplete t c) = True"
| "isTerminal (QueryError m) = True"
| "isTerminal _ = False"

fun isQueryStart :: "event \<Rightarrow> bool" where
  "isQueryStart (QueryStart q cols) = True"
| "isQueryStart _ = False"

section \<open>A database for the examples\<close>

text \<open>
  An initialised database in a UTC process: the store answers the schema probe and one
  query, with seven rows, and rejects every other text.
\<close>

definition exampleRows :: "jsval list" where
  "exampleRows = [JObj [(''employeeId'', JBigInt 1)], JObj [(''employeeId'', JBigInt 2)],
     JObj [(''employeeId'', JBigInt 3)], JObj [(''employeeId'', JBigInt 4)],
     JObj [(''employeeId'', JBigInt 5)], JObj [(''employeeId'', JBigInt 6)],
     JObj [(''employeeId'', JBigInt 7)]]"

definition exampleStore :: "string \<Rightarrow> thrown + (string list \<times> jsval list)" where
  "exampleStore q =
     (if q = ''SELECT * FROM employees LIMIT 0'' then Inr ([''employeeId''], [])
      else if q = ''select employeeId from employees'' then Inr ([''employeeId''], exampleRows)
      else Inl (Error ''Parser Error''))"

definition exampleDb :: DatabaseManager where
  "exampleDb = \<lparr>initialized = True, connection = Some exampleStore, localTZA = 0\<rparr>"

definition exampleInput :: DbQueryToolInput where
  "exampleInput = \<lparr>sql = '' select employeeId from employees'', limit = None\<rparr>"

definition rejectedInput :: DbQueryToolInput where
  "rejectedInput = \<lparr>sql = ''DROP TABLE employees'', limit = None\<rparr>"

definition exampleEvents :: "event list" where
  "exampleEvents =
     [QueryStart ''select employeeId from employees'' [''employeeId''],
      DataChunk [JObj [(''employeeId'', JNum 1)], JObj [(''employeeId'', JNum 2)],
                 JObj [(''employeeId'', JNum 3)], JObj [(''employeeId'', JNum 4)],
                 JObj [(''employeeId'', JNum 5)]] 1 5 5,
      DataChunk [JObj [(''employeeId'', JNum 6)], JObj [(''employeeId'', JNum 7)]] 2 2 7,
      QueryComplete 7 2]"

text \<open>A stand-in for \<open>JSON.stringify\<close> in the examples.\<close>

definition exampleStringify :: "jsval \<Rightarrow> string" where
  "exampleStringify row = (case row of JObj fs \<Rightarrow> ''{...}'' | _ \<Rightarrow> ''null'')"

text \<open>A registry for the examples.\<close>

definition exampleSessions :: sessions where
  "exampleSessions =
     [(''a1'', \<lparr>endpoint = 1, createdAt = 0, lastAccessed = 0\<rparr>),
      (''b2'', \<lparr>endpoint = 2, createdAt = 1000, lastAccessed = 2000000\<rparr>)]"

section \<open>The chunk loop\<close>

lemma dataChunks_append: "dataChunks (xs @ ys) = dataChunks xs @ dataChunks ys"
  by (induction xs rule: dataChunks.induct) simp_all

lemma chunks_append: "chunks (xs @ ys) = chunks xs @ chunks ys"
  by (simp add: chunks_def dataChunks_append)

lemma forRows_append: "forRows C st (xs @ ys) = forRows C (forRows C st xs) ys"
  by (induction xs arbitrary: st) simp_all

lemma forDbChunks_concat: "forDbChunks C st dbChunks = forRows C st (concat dbChunks)"
  by (induction dbChunks arbitrary: st) (simp_all add: forRows_append)

lemma pushRow_rows:
  "concat (chunks (emitted (pushRow C st row))) @ currentStreamChunk (pushRow C st row)
     = concat (chunks (emitted st)) @ currentStreamChunk st @ [row]"
  by (simp add: pushRow_def emitChunk_def Let_def chunks_append) (simp add: chunks_def)

lemma forRows_rows:
  "concat (chunks (emitted (forRows C st rows))) @ currentStreamChunk (forRows C st rows)
     = concat (chunks (emitted st)) @ currentStreamChunk st @ rows"
  by (induction rows arbitrary: st) (simp_all add: pushRow_rows)

lemma pushRow_inv:
  assumes "loopInv C st"
  shows "loopInv C (pushRow C st row)"
proof (cases "Suc (length (currentStreamChunk st)) \<ge> C")
  case False
  with assms show ?thesis
    by (simp add: loopInv_def pushRow_def Let_def)
next
  case True
  let ?n = "chunkNumber st"
  let ?old = "concat (chunks (emitted st))"
  let ?cur = "currentStreamChunk st @ [row]"
  from assms have lt: "length (currentStreamChunk st) < C"
    and alld: "list_all isDataChunk (emitted st)"
    and dc: "dataChunks (emitted st) =
        map (\<lambda>i. (take C (drop (i * C) ?old), Suc i, C, Suc i * C)) [0..<?n]"
    and len: "length ?old = ?n * C"
    and tot: "totalRows st = ?n * C + length (currentStreamChunk st)"
    by (simp_all add: loopInv_def)
  from True lt have lc: "length ?cur = C" by simp
  have em: "emitted (pushRow C st row) = emitted st @ [DataChunk ?cur (Suc ?n) C (Suc (totalRows st))]"
    using True lc by (simp add: pushRow_def emitChunk_def Let_def)
  have cn: "chunkNumber (pushRow C st row) = Suc ?n"
    using True by (simp add: pushRow_def emitChunk_def Let_def)
  have cu: "currentStreamChunk (pushRow C st row) = []"
    using True by (simp add: pushRow_def emitChunk_def Let_def)
  have tr: "totalRows (pushRow C st row) = Suc (totalRows st)"
    using True by (simp add: pushRow_def emitChunk_def Let_def)
  have new: "concat (chunks (emitted (pushRow C st row))) = ?old @ ?cur"
    by (simp add: em chunks_append) (simp add: chunks_def)
  have tot': "Suc (totalRows st) = Suc ?n * C"
    using tot lc by simp
  have old_terms: "map (\<lambda>i. (take C (drop (i * C) (?old @ ?cur)), Suc i, C, Suc i * C)) [0..<?n]
      = map (\<lambda>i. (take C (drop (i * C) ?old), Suc i, C, Suc i * C)) [0..<?n]"
  proof (rule map_cong[OF refl])
    fix i assume "i \<in> set [0..<?n]"
    then have "i < ?n" by simp
    then have "Suc i \<le> ?n" by simp
    then have "Suc i * C \<le> ?n * C" by (rule mult_le_mono1)
    then have "i * C + C \<le> length ?old" using len by simp
    then show "(take C (drop (i * C) (?old @ ?cur)), Suc i, C, Suc i * C)
        = (take C (drop (i * C) ?old), Suc i, C, Suc i * C)"
      by simp
  qed
  have last_term: "take C (drop (?n * C) (?old @ ?cur)) = ?cur"
    using len lc by simp
  have "dataChunks (emitted (pushRow C st row)) =
      map (\<lambda>i. (take C (drop (i * C) (?old @ ?cur)), Suc i, C, Suc i * C)) [0..<Suc ?n]"
    using dc old_terms last_term tot' by (simp add: em dataChunks_append)
  moreover have "length (?old @ ?cur) = Suc ?n * C"
    using len lc by simp
  ultimately show ?thesis
    using alld tot' lc unfolding loopInv_def
    by (simp only: new cn cu tr) (simp add: em)
qed

lemma forRows_inv: "loopInv C st \<Longrightarrow> loopInv C (forRows C st rows)"
  by (induction rows arbitrary: st) (simp_all add: pushRow_inv)

lemma initState_inv: "0 < C \<Longrightarrow> loopInv C initState"
  by (simp add: loopInv_def initState_def chunks_def)

lemma div_mod_unique_nat:
  fixes n C r R :: nat
  assumes "R = n * C + r" "r < C"
  shows "n = R div C" "r = R mod C"
  using assms by simp_all

lemma loop_final:
  assumes C: "0 < C"
  shows "chunkNumber (forDbChunks C initState dbChunks) = length (concat dbChunks) div C"
    and "currentStreamChunk (forDbChunks C initState dbChunks)
           = drop (length (concat dbChunks) div C * C) (concat dbChunks)"
    and "totalRows (forDbChunks C initState dbChunks) = length (concat dbChunks)"
    and "list_all isDataChunk (emitted (forDbChunks C initState dbChunks))"
    and "dataChunks (emitted (forDbChunks C initState dbChunks))
           = map (\<lambda>i. (take C (drop (i * C) (concat dbChunks)), Suc i, C, Suc i * C))
               [0..<length (concat dbChunks) div C]"
proof -
  let ?st = "forDbChunks C initState dbChunks"
  let ?rows = "concat dbChunks"
  let ?old = "concat (chunks (emitted ?st))"
  have st: "?st = forRows C initState ?rows" by (rule forDbChunks_concat)
  have inv: "loopInv C ?st"
    unfolding st by (rule forRows_inv[OF initState_inv[OF C]])
  have rows: "?old @ currentStreamChunk ?st = ?rows"
    unfolding st using forRows_rows[of C initState ?rows]
    by (simp add: initState_def chunks_def)
  from inv have lt: "length (currentStreamChunk ?st) < C"
    and alld: "list_all isDataChunk (emitted ?st)"
    and dc: "dataChunks (emitted ?st) =
        map (\<lambda>i. (take C (drop (i * C) ?old), Suc i, C, Suc i * C)) [0..<chunkNumber ?st]"
    and len: "length ?old = chunkNumber ?st * C"
    and tot: "totalRows ?st = chunkNumber ?st * C + length (currentStreamChunk ?st)"
    by (simp_all add: loopInv_def)
  have R: "length ?rows = chunkNumber ?st * C + length (currentStreamChunk ?st)"
    using arg_cong[OF rows, of length] len by simp
  show n: "chunkNumber ?st = length ?rows div C"
    using div_mod_unique_nat(1)[OF R lt] .
  show "totalRows ?st = length ?rows" using tot R by simp
  show "list_all isDataChunk (emitted ?st)" by (rule alld)
  have old: "?old = take (chunkNumber ?st * C) ?rows"
    using rows len by (metis append_eq_conv_conj)
  show "currentStreamChunk ?st = drop (length ?rows div C * C) ?rows"
    using rows len n by (metis append_eq_conv_conj)
  have "map (\<lambda>i. (take C (drop (i * C) ?old), Suc i, C, Suc i * C)) [0..<chunkNumber ?st]
      = map (\<lambda>i. (take C (drop (i * C) ?rows), Suc i, C, Suc i * C)) [0..<chunkNumber ?st]"
  proof (rule map_cong[OF refl])
    fix i assume "i \<in> set [0..<chunkNumber ?st]"
    then have "Suc i \<le> chunkNumber ?st" by simp
    then have "Suc i * C \<le> chunkNumber ?st * C" by (rule mult_le_mono1)
    then have "i * C + C \<le> length ?old" using len by simp
    then have "take C (drop (i * C) (?old @ currentStreamChunk ?st)) = take C (drop (i * C) ?old)"
      by simp
    then show "(take C (drop (i * C) ?old), Suc i, C, Suc i * C)
        = (take C (drop (i * C) ?rows), Suc i, C, Suc i * C)"
      by (simp add: rows)
  qed
  then show "dataChunks (emitted ?st)
           = map (\<lambda>i. (take C (drop (i * C) ?rows), Suc i, C, Suc i * C)) [0..<length ?rows div C]"
    using dc n by simp
qed

lemma ceil_cases:
  fixes R C :: nat
  assumes "0 < C"
  shows "(R + C - 1) div C = (if R mod C = 0 then R div C else Suc (R div C))"
proof (cases "R mod C = 0")
  case True
  have R: "R div C * C = R" using True div_mult_mod_eq[of R C] by simp
  have "C * (R div C) \<le> R + C - 1" using R assms by (simp add: mult.commute)
  moreover have "R + C - 1 < C * Suc (R div C)" using R assms by (simp add: mult.commute)
  ultimately have "(R + C - 1) div C = R div C" by (rule div_nat_eqI)
  then show ?thesis using True by simp
next
  case False
  have lo: "R div C * C \<le> R" by simp
  have lo': "R div C * C \<noteq> R"
  proof
    assume "R div C * C = R"
    then have "R mod C = 0" by (metis mod_mult_self2_is_0)
    with False show False by simp
  qed
  have up: "R < C + R div C * C" using dividend_less_div_times[OF assms, of R] .
  have lt: "R div C * C < R" using lo lo' by (rule le_neq_trans)
  have "C * Suc (R div C) \<le> R + C - 1" using lt by (simp add: mult.commute)
  moreover have "R + C - 1 < C * Suc (Suc (R div C))" using up assms by (simp add: mult.commute)
  ultimately have "(R + C - 1) div C = Suc (R div C)" by (rule div_nat_eqI)
  then show ?thesis using False by simp
qed

lemma streamingBody_shape:
  assumes C: "0 < C"
  shows "\<exists>ds. streamingBody C gen = ds @
            [case failure gen of
               None \<Rightarrow> QueryComplete (length (concat (yielded gen)))
                         (chunkCount C (length (concat (yielded gen))) None)
             | Some e \<Rightarrow> QueryError (messageOr ''Unknown error'' e)]
          \<and> list_all isDataChunk ds
          \<and> dataChunks ds =
              map (\<lambda>i. (take C (drop (i * C) (concat (yielded gen))), Suc i,
                        min C (length (concat (yielded gen)) - i * C),
                        min (length (concat (yielded gen))) (Suc i * C)))
                [0..<chunkCount C (length (concat (yielded gen))) (failure gen)]"
proof -
  let ?rows = "concat (yielded gen)"
  let ?R = "length ?rows"
  let ?st = "forDbChunks C initState (yielded gen)"
  let ?q = "?R div C"
  note fin = loop_final[OF C, of "yielded gen"]
  have full: "map (\<lambda>i. (take C (drop (i * C) ?rows), Suc i, C, Suc i * C)) [0..<?q]
      = map (\<lambda>i. (take C (drop (i * C) ?rows), Suc i, min C (?R - i * C), min ?R (Suc i * C))) [0..<?q]"
  proof (rule map_cong[OF refl])
    fix i assume "i \<in> set [0..<?q]"
    then have "Suc i \<le> ?q" by simp
    then have "Suc i * C \<le> ?q * C" by (rule mult_le_mono1)
    also have "?q * C \<le> ?R" by simp
    finally have "i * C + C \<le> ?R" by simp
    then show "(take C (drop (i * C) ?rows), Suc i, C, Suc i * C)
      = (take C (drop (i * C) ?rows), Suc i, min C (?R - i * C), min ?R (Suc i * C))"
      by (simp add: min_def)
  qed
  show ?thesis
  proof (cases "failure gen")
    case (Some e)
    have "streamingBody C gen = emitted ?st @ [QueryError (messageOr ''Unknown error'' e)]"
      using Some by (simp add: streamingBody_def Let_def initState_def)
    then show ?thesis using Some fin(4,5) full
      by (simp add: chunkCount_def)
  next
    case None
    show ?thesis
    proof (cases "?R mod C = 0")
      case True
      then have "?q * C = ?R" using div_mult_mod_eq[of ?R C] by simp
      then have "currentStreamChunk ?st = []"
        using fin(2) by simp
      then have "streamingBody C gen = emitted ?st @ [QueryComplete ?R ?q]"
        using None fin(1,3) by (simp add: streamingBody_def Let_def initState_def)
      then show ?thesis using None True fin(4,5) full ceil_cases[OF C, of ?R]
        by (simp add: chunkCount_def)
    next
      case False
      let ?cur = "drop (?q * C) ?rows"
      have r: "0 < ?R mod C" "?R mod C < C" using False C by simp_all
      have modeq: "?R - ?q * C = ?R mod C" by (rule minus_div_mult_eq_mod)
      have upper: "?R < C + ?q * C" using dividend_less_div_times[OF C, of ?R] .
      have lcur: "length ?cur = ?R mod C"
        using modeq by simp
      then have ne: "length (currentStreamChunk ?st) > 0" using fin(2) r by simp
      have body: "streamingBody C gen =
          (emitted ?st @ [DataChunk ?cur (Suc ?q) (?R mod C) ?R]) @ [QueryComplete ?R (Suc ?q)]"
        using None ne fin(1,2,3) lcur
        by (simp add: streamingBody_def Let_def initState_def emitChunk_def)
      have last1: "take C ?cur = ?cur" using lcur r by simp
      have last2: "min C (?R - ?q * C) = ?R mod C"
        using r modeq by simp
      have last3: "min ?R (Suc ?q * C) = ?R"
        using upper by simp
      have "dataChunks (emitted ?st @ [DataChunk ?cur (Suc ?q) (?R mod C) ?R])
          = map (\<lambda>i. (take C (drop (i * C) ?rows), Suc i, min C (?R - i * C), min ?R (Suc i * C)))
              [0..<Suc ?q]"
        using fin(5) full last1 last2 last3 by (simp add: dataChunks_append)
      then show ?thesis
        using None False body fin(4) ceil_cases[OF C, of ?R]
        by (simp add: chunkCount_def)
    qed
  qed
qed

lemma concat_slices:
  "concat (map (\<lambda>i. take C (drop (i * C) rows)) [0..<n]) = take (n * C) rows"
proof (induction n)
  case 0
  show ?case by simp
next
  case (Suc n)
  have "take (n * C + C) rows = take (n * C) rows @ take C (drop (n * C) rows)"
    by (rule take_add)
  then show ?case using Suc by (simp add: add.commute)
qed

lemma sum_mins:
  fixes C R :: nat
  shows "sum_list (map (\<lambda>i. min C (R - i * C)) [0..<n]) = min R (n * C)"
proof (induction n)
  case 0
  show ?case by simp
next
  case (Suc n)
  have "min R (n * C) + min C (R - n * C) = min R (n * C + C)"
    unfolding min_def by (cases "R \<le> n * C") auto
  then show ?case using Suc by (simp add: add.commute)
qed

lemma ceil_upper:
  fixes R C :: nat
  assumes "0 < C"
  shows "R \<le> (R + C - 1) div C * C"
proof (cases "R mod C = 0")
  case True
  then have "R div C * C = R" using div_mult_mod_eq[of R C] by simp
  then show ?thesis using True ceil_cases[OF assms, of R] by simp
next
  case False
  have "R < C + R div C * C" using dividend_less_div_times[OF assms, of R] .
  then show ?thesis using False ceil_cases[OF assms, of R] by simp
qed

lemma ceil_lower:
  fixes R C :: nat
  assumes "0 < C" "i < (R + C - 1) div C"
  shows "i * C < R"
proof (cases "R mod C = 0")
  case True
  then have R: "R div C * C = R" using div_mult_mod_eq[of R C] by simp
  from assms True have "Suc i \<le> R div C" using ceil_cases[OF assms(1), of R] by simp
  then have "Suc i * C \<le> R div C * C" by (rule mult_le_mono1)
  then show ?thesis using R assms(1) by simp
next
  case False
  from assms False have "i \<le> R div C" using ceil_cases[OF assms(1), of R] by simp
  then have "i * C \<le> R div C * C" by (rule mult_le_mono1)
  moreover have "R div C * C \<noteq> R"
  proof
    assume "R div C * C = R"
    then have "R mod C = 0" by (metis mod_mult_self2_is_0)
    with False show False by simp
  qed
  moreover have "R div C * C \<le> R" by simp
  ultimately show ?thesis by linarith
qed

lemma dataChunks_only: "list_all isDataChunk ds \<Longrightarrow> length (dataChunks ds) = length ds"
  by (induction ds rule: dataChunks.induct) simp_all

lemma streamingBody_dataChunks:
  assumes "0 < C"
  shows "dataChunks (streamingBody C gen) =
     map (\<lambda>i. (take C (drop (i * C) (concat (yielded gen))), Suc i,
               min C (length (concat (yielded gen)) - i * C),
               min (length (concat (yielded gen))) (Suc i * C)))
       [0..<chunkCount C (length (concat (yielded gen))) (failure gen)]"
proof -
  from streamingBody_shape[OF assms, of gen] obtain ds where
    ds: "streamingBody C gen = ds @
            [case failure gen of
               None \<Rightarrow> QueryComplete (length (concat (yielded gen)))
                         (chunkCount C (length (concat (yielded gen))) None)
             | Some e \<Rightarrow> QueryError (messageOr ''Unknown error'' e)]"
    and dc: "dataChunks ds =
              map (\<lambda>i. (take C (drop (i * C) (concat (yielded gen))), Suc i,
                        min C (length (concat (yielded gen)) - i * C),
                        min (length (concat (yielded gen))) (Suc i * C)))
                [0..<chunkCount C (length (concat (yielded gen))) (failure gen)]"
    by blast
  show ?thesis
    unfolding ds dataChunks_append dc by (cases "failure gen") simp_all
qed

lemma streamingBody_chunks:
  assumes "0 < C"
  shows "chunks (streamingBody C gen) =
     map (\<lambda>i. take C (drop (i * C) (concat (yielded gen))))
       [0..<chunkCount C (length (concat (yielded gen))) (failure gen)]"
  by (simp add: chunks_def streamingBody_dataChunks[OF assms] comp_def)

lemma streamingBody_chunkNumbers:
  assumes "0 < C"
  shows "chunkNumbers (streamingBody C gen) =
     map Suc [0..<chunkCount C (length (concat (yielded gen))) (failure gen)]"
  by (simp add: chunkNumbers_def streamingBody_dataChunks[OF assms] comp_def)

lemma streamingBody_rowsInChunks:
  assumes "0 < C"
  shows "rowsInChunks (streamingBody C gen) =
     map (\<lambda>i. min C (length (concat (yielded gen)) - i * C))
       [0..<chunkCount C (length (concat (yielded gen))) (failure gen)]"
  by (simp add: rowsInChunks_def streamingBody_dataChunks[OF assms] comp_def)

lemma streamingBody_totalRowsSoFars:
  assumes "0 < C"
  shows "totalRowsSoFars (streamingBody C gen) =
     map (\<lambda>i. min (length (concat (yielded gen))) (Suc i * C))
       [0..<chunkCount C (length (concat (yielded gen))) (failure gen)]"
  by (simp add: totalRowsSoFars_def streamingBody_dataChunks[OF assms] comp_def)

section \<open>Claims about the chunk loop\<close>

text \<open>
  Claim C1. When the row source ends normally after \<open>R\<close> rows, however it grouped them, the
  loop with a positive chunk size \<open>C\<close> emits \<open>ceil(R / C)\<close> \<open>data_chunk\<close> events (none for
  \<open>R = 0\<close>, and never an empty chunk); every chunk but the last has \<open>C\<close> rows and the last
  has \<open>R mod C\<close> rows, or \<open>C\<close> when \<open>C\<close> divides \<open>R\<close>; the chunks, put end to end, are
  the rows in source order, so every row is in exactly one chunk; \<open>rowsInChunk\<close> is the
  length of the chunk.
\<close>

theorem chunk_sequencer:
  assumes C: "0 < C"
    and evs: "evs = streamingBody C \<lparr>yielded = dbChunks, failure = None\<rparr>"
    and rows: "rows = concat dbChunks"
  shows "length (chunks evs) = (length rows + C - 1) div C
       \<and> concat (chunks evs) = rows
       \<and> (\<forall>i < length (chunks evs).
            length (chunks evs ! i) =
              (if Suc i < length (chunks evs) then C
               else if length rows mod C = 0 then C else length rows mod C))
       \<and> [] \<notin> set (chunks evs)
       \<and> rowsInChunks evs = map length (chunks evs)"
proof -
  let ?R = "length rows"
  let ?N = "(?R + C - 1) div C"
  have ch: "chunks evs = map (\<lambda>i. take C (drop (i * C) rows)) [0..<?N]"
    unfolding evs rows by (simp add: streamingBody_chunks[OF C] chunkCount_def)
  have ric: "rowsInChunks evs = map (\<lambda>i. min C (?R - i * C)) [0..<?N]"
    unfolding evs rows by (simp add: streamingBody_rowsInChunks[OF C] chunkCount_def)
  have len: "length (chunks evs) = ?N" by (simp add: ch)
  have cat: "concat (chunks evs) = rows"
    unfolding ch concat_slices using ceil_upper[OF C, of ?R] by simp
  have nth: "length (chunks evs ! i) = min C (?R - i * C)" if "i < ?N" for i
    using that by (simp add: ch)
  have sizes: "length (chunks evs ! i) =
      (if Suc i < ?N then C else if ?R mod C = 0 then C else ?R mod C)" if i: "i < ?N" for i
  proof (cases "Suc i < ?N")
    case True
    then have "Suc i * C < ?R" by (rule ceil_lower[OF C])
    then show ?thesis using True nth[OF i] by (simp add: min_def)
  next
    case False
    with i have N: "?N = Suc i" by simp
    show ?thesis
    proof (cases "?R mod C = 0")
      case True
      then have R: "?R div C * C = ?R" using div_mult_mod_eq[of ?R C] by simp
      from N True have "?R div C = Suc i" using ceil_cases[OF C, of ?R] by simp
      with R have "?R = i * C + C" by simp
      then show ?thesis using False True nth[OF i] by simp
    next
      case nz: False
      from N nz have q: "?R div C = i" using ceil_cases[OF C, of ?R] by simp
      have "?R - ?R div C * C = ?R mod C" by (rule minus_div_mult_eq_mod)
      then have "?R - i * C = ?R mod C" using q by simp
      moreover have "?R mod C < C" using C by simp
      ultimately show ?thesis using False nz nth[OF i] by simp
    qed
  qed
  have nonempty: "[] \<notin> set (chunks evs)"
  proof
    assume "[] \<in> set (chunks evs)"
    then obtain i where i: "i < ?N" and e: "take C (drop (i * C) rows) = []"
      by (auto simp: ch)
    from ceil_lower[OF C i] have "i * C < ?R" .
    then have "drop (i * C) rows \<noteq> []" by simp
    with e C show False by simp
  qed
  have "rowsInChunks evs = map length (chunks evs)"
    by (simp add: ric ch comp_def min.commute)
  with len cat sizes nonempty show ?thesis by simp
qed

text \<open>Seven rows read as a group of three and a group of four, in chunks of five.\<close>

theorem chunk_sequencer_witness:
  "(0::nat) < 5
   \<and> length (chunks (streamingBody 5 \<lparr>yielded = [[JNum 1, JNum 2, JNum 3], [JNum 4, JNum 5, JNum 6, JNum 7]], failure = None\<rparr>)) = 2
   \<and> concat (chunks (streamingBody 5 \<lparr>yielded = [[JNum 1, JNum 2, JNum 3], [JNum 4, JNum 5, JNum 6, JNum 7]], failure = None\<rparr>))
       = [JNum 1, JNum 2, JNum 3, JNum 4, JNum 5, JNum 6, JNum 7]"
  using chunk_sequencer[OF _ refl refl, of 5 "[[JNum 1, JNum 2, JNum 3], [JNum 4, JNum 5, JNum 6, JNum 7]]"]
  by simp

section \<open>The database manager and the shape of a run\<close>

lemma sliceLoop_Some:
  assumes "0 < n"
  shows "\<exists>cs. sliceLoop n i rows = Some cs \<and> concat cs = drop i rows"
  using assms
proof (induction n i rows rule: sliceLoop.induct)
  case (1 chunkSize i rows)
  show ?case
  proof (cases "i < length rows")
    case False
    then show ?thesis by (simp add: sliceLoop.simps[of chunkSize i rows])
  next
    case True
    with 1 obtain cs where cs: "sliceLoop chunkSize (i + chunkSize) rows = Some cs"
      and cat: "concat cs = drop (i + chunkSize) rows"
      by auto
    have "take chunkSize (drop i rows) @ drop (i + chunkSize) rows = drop i rows"
      by (metis append_take_drop_id drop_drop add.commute)
    then show ?thesis using True 1(2) cs cat
      by (simp add: sliceLoop.simps[of chunkSize i rows])
  qed
qed

lemma executeStreamingQuery_total:
  assumes "0 < n"
  shows "\<exists>gen. executeStreamingQuery db q n = Some (sentTo db q, gen)
           \<and> (case readRows db q of
                 Inl e \<Rightarrow> yielded gen = [] \<and> failure gen = Some e
               | Inr rows \<Rightarrow> concat (yielded gen) = rows \<and> failure gen = None)"
proof (cases "connection db")
  case None
  then show ?thesis by (simp add: executeStreamingQuery_def readRows_def sentTo_def)
next
  case (Some run)
  show ?thesis
  proof (cases "initialized db")
    case False
    with Some show ?thesis by (simp add: executeStreamingQuery_def readRows_def sentTo_def)
  next
    case True
    show ?thesis
    proof (cases "run q")
      case (Inl e)
      with Some True show ?thesis by (simp add: executeStreamingQuery_def readRows_def sentTo_def)
    next
      case (Inr r)
      obtain cols rawRows where r: "r = (cols, rawRows)" by (cases r)
      show ?thesis
      proof (cases "convertItems (localTZA db) rawRows")
        case (Inl e)
        with Some True Inr r show ?thesis
          by (simp add: executeStreamingQuery_def readRows_def sentTo_def)
      next
        case rows: (Inr rows)
        from sliceLoop_Some[OF assms, of 0 rows] obtain cs
          where "sliceLoop n 0 rows = Some cs" "concat cs = rows" by auto
        with Some True Inr r rows show ?thesis
          by (simp add: executeStreamingQuery_def readRows_def sentTo_def)
      qed
    qed
  qed
qed

lemma executeQuery_sent: "fst (executeQuery db q) = sentTo db q"
  by (simp add: executeQuery_def sentTo_def split: option.splits)

lemma executeStreamingTool_cases:
  "(\<exists>m. executeStreamingTool db input = Some ([QueryError m], [])
        \<and> (sql input = [] \<or> \<not> validateQuery (sql input)))
   \<or> (\<exists>m. executeStreamingTool db input = Some ([QueryError m], sentTo db schemaProbe)
        \<and> sql input \<noteq> [] \<and> validateQuery (sql input)
        \<and> (\<exists>e. snd (executeQuery db schemaProbe) = Inl e))
   \<or> (\<exists>cols gen r. executeStreamingTool db input =
          Some (QueryStart (applyLimit (sql input) (limit input)) cols # streamingBody streamChunkSize gen,
                sentTo db schemaProbe @ sentTo db (applyLimit (sql input) (limit input)))
        \<and> sql input \<noteq> [] \<and> validateQuery (sql input)
        \<and> snd (executeQuery db schemaProbe) = Inr r
        \<and> executeStreamingQuery db (applyLimit (sql input) (limit input)) dbChunkSize
            = Some (sentTo db (applyLimit (sql input) (limit input)), gen))"
proof (cases "sql input = [] \<or> \<not> validateQuery (sql input)")
  case True
  then show ?thesis by (auto simp: executeStreamingTool_def)
next
  case False
  obtain sent1 res where eq: "executeQuery db schemaProbe = (sent1, res)"
    by (cases "executeQuery db schemaProbe")
  have sent1: "sent1 = sentTo db schemaProbe"
    using executeQuery_sent[of db schemaProbe] eq by simp
  show ?thesis
  proof (cases res)
    case (Inl e)
    with False eq sent1 show ?thesis by (simp add: executeStreamingTool_def)
  next
    case (Inr r)
    from executeStreamingQuery_total[of dbChunkSize db "applyLimit (sql input) (limit input)"]
    obtain gen where "executeStreamingQuery db (applyLimit (sql input) (limit input)) dbChunkSize
        = Some (sentTo db (applyLimit (sql input) (limit input)), gen)"
      by (auto simp: dbChunkSize_def)
    with False eq sent1 Inr show ?thesis by (simp add: executeStreamingTool_def Let_def)
  qed
qed

lemma isDataChunk_cases: "isDataChunk ev \<Longrightarrow> \<not> isTerminal ev \<and> \<not> isQueryStart ev"
  by (cases ev) simp_all

lemma streamingBody_split:
  assumes "0 < C"
  shows "\<exists>ds t. streamingBody C gen = ds @ [t] \<and> list_all isDataChunk ds \<and> isTerminal t"
proof -
  from streamingBody_shape[OF assms, of gen] obtain ds where
    "streamingBody C gen = ds @
            [case failure gen of
               None \<Rightarrow> QueryComplete (length (concat (yielded gen)))
                         (chunkCount C (length (concat (yielded gen))) None)
             | Some e \<Rightarrow> QueryError (messageOr ''Unknown error'' e)]"
    "list_all isDataChunk ds"
    by blast
  moreover have "isTerminal (case failure gen of
               None \<Rightarrow> QueryComplete (length (concat (yielded gen)))
                         (chunkCount C (length (concat (yielded gen))) None)
             | Some e \<Rightarrow> QueryError (messageOr ''Unknown error'' e))"
    by (cases "failure gen") simp_all
  ultimately show ?thesis by blast
qed

lemma streamingBody_complete:
  assumes C: "0 < C" and mem: "QueryComplete t c \<in> set (streamingBody C gen)"
  shows "t = sum_list (rowsInChunks (streamingBody C gen))
       \<and> c = length (rowsInChunks (streamingBody C gen))
       \<and> last (streamingBody C gen) = QueryComplete t c
       \<and> failure gen = None"
proof -
  let ?R = "length (concat (yielded gen))"
  from streamingBody_shape[OF C, of gen] obtain ds where
    body: "streamingBody C gen = ds @
            [case failure gen of
               None \<Rightarrow> QueryComplete ?R (chunkCount C ?R None)
             | Some e \<Rightarrow> QueryError (messageOr ''Unknown error'' e)]"
    and alld: "list_all isDataChunk ds"
    by blast
  have notin: "QueryComplete t c \<notin> set ds"
  proof
    assume "QueryComplete t c \<in> set ds"
    with alld have "isDataChunk (QueryComplete t c)" by (auto simp: list_all_iff)
    then show False by simp
  qed
  from mem notin have last: "(case failure gen of
               None \<Rightarrow> QueryComplete ?R (chunkCount C ?R None)
             | Some e \<Rightarrow> QueryError (messageOr ''Unknown error'' e)) = QueryComplete t c"
    unfolding body by simp
  then have f: "failure gen = None" by (cases "failure gen") simp_all
  with last have t: "t = ?R" and c: "c = chunkCount C ?R None" by auto
  have ric: "rowsInChunks (streamingBody C gen) = map (\<lambda>i. min C (?R - i * C)) [0..<chunkCount C ?R None]"
    using streamingBody_rowsInChunks[OF C, of gen] f by simp
  have "sum_list (rowsInChunks (streamingBody C gen)) = min ?R (chunkCount C ?R None * C)"
    unfolding ric by (rule sum_mins)
  also have "\<dots> = ?R" using ceil_upper[OF C, of ?R] by (simp add: chunkCount_def)
  finally have "sum_list (rowsInChunks (streamingBody C gen)) = ?R" .
  moreover have "length (rowsInChunks (streamingBody C gen)) = chunkCount C ?R None"
    by (simp add: ric)
  moreover have "last (streamingBody C gen) = QueryComplete t c"
    unfolding body using last by simp
  ultimately show ?thesis using t c f by simp
qed

lemma rowsInChunks_Cons_start [simp]: "rowsInChunks (QueryStart q cols # evs) = rowsInChunks evs"
  by (simp add: rowsInChunks_def)

lemma chunkNumbers_Cons_start [simp]: "chunkNumbers (QueryStart q cols # evs) = chunkNumbers evs"
  by (simp add: chunkNumbers_def)

lemma totalRowsSoFars_Cons_start [simp]: "totalRowsSoFars (QueryStart q cols # evs) = totalRowsSoFars evs"
  by (simp add: totalRowsSoFars_def)

lemma chunks_Cons_start [simp]: "chunks (QueryStart q cols # evs) = chunks evs"
  by (simp add: chunks_def)

text \<open>
  Claim C2. In a run of \<open>executeStreamingTool\<close> that emits \<open>query_complete\<close>, that event is
  the last one, its \<open>totalRows\<close> is the sum of \<open>rowsInChunk\<close> over the \<open>data_chunk\<close> events
  and its \<open>totalChunks\<close> is their number.
\<close>

theorem query_complete_totals:
  assumes run: "executeStreamingTool db input = Some (evs, sent)"
    and mem: "QueryComplete t c \<in> set evs"
  shows "t = sum_list (rowsInChunks evs) \<and> c = length (rowsInChunks evs)
       \<and> last evs = QueryComplete t c"
proof -
  have C: "0 < streamChunkSize" by (simp add: streamChunkSize_def)
  from executeStreamingTool_cases[of db input] run mem
  obtain cols gen where evs: "evs = QueryStart (applyLimit (sql input) (limit input)) cols
      # streamingBody streamChunkSize gen"
    by auto
  with mem have m: "QueryComplete t c \<in> set (streamingBody streamChunkSize gen)" by simp
  then have ne: "streamingBody streamChunkSize gen \<noteq> []" by auto
  from streamingBody_complete[OF C m] ne show ?thesis by (simp add: evs)
qed

lemma streamingBody_numbering:
  assumes C: "0 < C"
  shows "chunkNumbers (streamingBody C gen) = [1..<Suc (length (chunkNumbers (streamingBody C gen)))]
       \<and> (\<forall>i < length (totalRowsSoFars (streamingBody C gen)).
            totalRowsSoFars (streamingBody C gen) ! i
              = sum_list (take (Suc i) (rowsInChunks (streamingBody C gen))))
       \<and> sorted (totalRowsSoFars (streamingBody C gen))"
proof -
  let ?R = "length (concat (yielded gen))"
  let ?N = "chunkCount C ?R (failure gen)"
  have cn: "chunkNumbers (streamingBody C gen) = map Suc [0..<?N]"
    by (rule streamingBody_chunkNumbers[OF C])
  have ric: "rowsInChunks (streamingBody C gen) = map (\<lambda>i. min C (?R - i * C)) [0..<?N]"
    by (rule streamingBody_rowsInChunks[OF C])
  have tsf: "totalRowsSoFars (streamingBody C gen) = map (\<lambda>i. min ?R (Suc i * C)) [0..<?N]"
    by (rule streamingBody_totalRowsSoFars[OF C])
  have one: "chunkNumbers (streamingBody C gen) = [1..<Suc (length (chunkNumbers (streamingBody C gen)))]"
    unfolding cn by (simp add: map_Suc_upt)
  have two: "totalRowsSoFars (streamingBody C gen) ! i
              = sum_list (take (Suc i) (rowsInChunks (streamingBody C gen)))"
    if "i < length (totalRowsSoFars (streamingBody C gen))" for i
  proof -
    from that have i: "i < ?N" by (simp add: tsf)
    then have "take (Suc i) (map (\<lambda>i. min C (?R - i * C)) [0..<?N])
        = map (\<lambda>i. min C (?R - i * C)) [0..<Suc i]"
      by (simp add: take_map min_def)
    then have "sum_list (take (Suc i) (rowsInChunks (streamingBody C gen))) = min ?R (Suc i * C)"
      unfolding ric using sum_mins[of C ?R "Suc i"] by simp
    moreover have "totalRowsSoFars (streamingBody C gen) ! i = min ?R (Suc i * C)"
      using i by (simp add: tsf)
    ultimately show ?thesis by simp
  qed
  have three: "sorted (totalRowsSoFars (streamingBody C gen))"
    unfolding tsf sorted_iff_nth_mono
  proof (intro allI impI)
    fix i j
    assume ij: "i \<le> j" and j: "j < length (map (\<lambda>i. min ?R (Suc i * C)) [0..<?N])"
    from ij have "Suc i \<le> Suc j" by simp
    then have "Suc i * C \<le> Suc j * C" by (rule mult_le_mono1)
    then have "min ?R (Suc i * C) \<le> min ?R (Suc j * C)" by (rule min.mono[OF order_refl])
    then show "map (\<lambda>i. min ?R (Suc i * C)) [0..<?N] ! i \<le> map (\<lambda>i. min ?R (Suc i * C)) [0..<?N] ! j"
      using ij j by simp
  qed
  from one two three show ?thesis by blast
qed

section \<open>The example runs\<close>

lemmas string_defs = validateQuery_def trim_def toLowerCase_def lowerChar_def upperCaseLetters_def
  lowerCaseLetters_def isWhiteSpace_def startsWith_def dangerousKeywords_def applyLimit_def
  numberToString_def digitChar_def

lemmas tool_defs = executeStreamingTool_def executeQuery_def executeStreamingQuery_def
  streamingBody_def pushRow_def emitChunk_def schemaProbe_def streamChunkSize_def dbChunkSize_def
  exampleDb_def exampleStore_def exampleRows_def requiredMessage_def invalidMessage_def

lemma example_run:
  "executeStreamingTool exampleDb exampleInput =
     Some (exampleEvents, [''SELECT * FROM employees LIMIT 0'', ''select employeeId from employees''])"
  by (simp add: tool_defs string_defs exampleInput_def exampleEvents_def sliceLoop.simps Let_def)

lemma example_rejected:
  "executeStreamingTool exampleDb rejectedInput = Some ([QueryError invalidMessage], [])"
  by (simp add: executeStreamingTool_def rejectedInput_def string_defs Let_def)

section \<open>Claims about the event sequence\<close>

lemma chunkNumbers_error [simp]: "chunkNumbers [QueryError m] = []"
  by (simp add: chunkNumbers_def)

lemma totalRowsSoFars_error [simp]: "totalRowsSoFars [QueryError m] = []"
  by (simp add: totalRowsSoFars_def)

text \<open>
  Claim C3. \<open>executeStreamingTool\<close> always finishes, and in the events it yields the
  \<open>chunkNumber\<close> fields of the \<open>data_chunk\<close> events are \<open>1, 2, 3, ...\<close>, each
  \<open>totalRowsSoFar\<close> is the sum of \<open>rowsInChunk\<close> up to and including its own event, and
  the \<open>totalRowsSoFar\<close> fields never decrease.
\<close>

theorem data_chunk_numbering:
  "\<exists>evs sent. executeStreamingTool db input = Some (evs, sent)
     \<and> chunkNumbers evs = [1..<Suc (length (chunkNumbers evs))]
     \<and> (\<forall>i < length (totalRowsSoFars evs).
          totalRowsSoFars evs ! i = sum_list (take (Suc i) (rowsInChunks evs)))
     \<and> sorted (totalRowsSoFars evs)"
proof -
  have C: "0 < streamChunkSize" by (simp add: streamChunkSize_def)
  from executeStreamingTool_cases[of db input]
  consider (err) m sent where "executeStreamingTool db input = Some ([QueryError m], sent)"
    | (run) q cols gen sent where
        "executeStreamingTool db input = Some (QueryStart q cols # streamingBody streamChunkSize gen, sent)"
    by blast
  then show ?thesis
  proof cases
    case err
    then show ?thesis by simp
  next
    case run
    with streamingBody_numbering[OF C, of gen] show ?thesis by (simp del: upt_Suc)
  qed
qed

text \<open>The example run: chunks 1 and 2, with 5 and then 7 rows so far.\<close>

theorem data_chunk_numbering_witness:
  "chunkNumbers exampleEvents = [1, 2]
   \<and> totalRowsSoFars exampleEvents = [5, 7]
   \<and> totalRowsSoFars exampleEvents ! 1 = sum_list (take 2 (rowsInChunks exampleEvents))"
  using data_chunk_numbering[of exampleDb exampleInput]
  unfolding example_run
  by (simp add: chunkNumbers_def totalRowsSoFars_def rowsInChunks_def exampleEvents_def)

text \<open>
  Claim C4, as amended. \<open>executeStreamingTool\<close> always finishes. When the query text is
  not empty, passes \<open>validateQuery\<close> and the schema probe succeeds, the sequence is one
  \<open>query_start\<close>, then \<open>data_chunk\<close> events only, then exactly one terminal event
  (\<open>query_complete\<close> or \<open>query_error\<close>), and nothing after it. Otherwise the sequence is
  the single event \<open>query_error\<close>, with no \<open>query_start\<close>.
\<close>

theorem event_sequence_shape:
  "\<exists>evs sent. executeStreamingTool db input = Some (evs, sent)
     \<and> (if sql input \<noteq> [] \<and> validateQuery (sql input)
           \<and> (\<exists>r. snd (executeQuery db schemaProbe) = Inr r)
         then \<exists>q cols ds t. evs = QueryStart q cols # ds @ [t]
                \<and> list_all isDataChunk ds \<and> isTerminal t
         else \<exists>m. evs = [QueryError m])"
proof -
  have C: "0 < streamChunkSize" by (simp add: streamChunkSize_def)
  from executeStreamingTool_cases[of db input]
  consider (rejected) m where "executeStreamingTool db input = Some ([QueryError m], [])"
        "sql input = [] \<or> \<not> validateQuery (sql input)"
    | (probe) m e where "executeStreamingTool db input = Some ([QueryError m], sentTo db schemaProbe)"
        "snd (executeQuery db schemaProbe) = Inl e"
    | (run) cols gen r where "executeStreamingTool db input =
          Some (QueryStart (applyLimit (sql input) (limit input)) cols # streamingBody streamChunkSize gen,
                sentTo db schemaProbe @ sentTo db (applyLimit (sql input) (limit input)))"
        "sql input \<noteq> []" "validateQuery (sql input)" "snd (executeQuery db schemaProbe) = Inr r"
    by blast
  then show ?thesis
  proof cases
    case rejected
    then show ?thesis by auto
  next
    case probe
    then show ?thesis by auto
  next
    case run
    from streamingBody_split[OF C, of gen] obtain ds t
      where "streamingBody streamChunkSize gen = ds @ [t]" "list_all isDataChunk ds" "isTerminal t"
      by blast
    with run show ?thesis by auto
  qed
qed

text \<open>The example run passes validation and the probe, and has the first shape.\<close>

theorem event_sequence_shape_witness:
  "\<exists>q cols ds t. exampleEvents = QueryStart q cols # ds @ [t]
     \<and> list_all isDataChunk ds \<and> isTerminal t"
proof -
  have v: "sql exampleInput \<noteq> [] \<and> validateQuery (sql exampleInput)"
    by (simp add: string_defs exampleInput_def)
  have p: "snd (executeQuery exampleDb schemaProbe)
      = Inr \<lparr>data = [], columns = [''employeeId''], rowCount = 0\<rparr>"
    by (simp add: tool_defs)
  show ?thesis
    using event_sequence_shape[of exampleDb exampleInput] v p
    unfolding example_run by simp
qed

text \<open>
  Claim C4 as stated fails: a rejected query yields \<open>query_error\<close> alone, so the sequence
  does not start with \<open>query_start\<close>.
\<close>

theorem query_start_first_counterexample:
  "executeStreamingTool exampleDb rejectedInput = Some ([QueryError invalidMessage], [])
   \<and> \<not> isQueryStart (QueryError invalidMessage)"
  by (simp add: example_rejected)

text \<open>The example run ends with \<open>query_complete\<close> for 7 rows in 2 chunks.\<close>

theorem query_complete_totals_witness:
  "QueryComplete 7 2 \<in> set exampleEvents
   \<and> (7::nat) = sum_list (rowsInChunks exampleEvents)
   \<and> (2::nat) = length (rowsInChunks exampleEvents)
   \<and> last exampleEvents = QueryComplete 7 2"
proof -
  have m: "QueryComplete 7 2 \<in> set exampleEvents" by (simp add: exampleEvents_def)
  show ?thesis using m query_complete_totals[OF example_run m] by simp
qed

text \<open>
  Claim C7. If the row source throws \<open>e\<close> after yielding \<open>k\<close> rows, the loop with a
  positive chunk size \<open>C\<close> has emitted exactly \<open>k div C\<close> \<open>data_chunk\<close> events, each
  with \<open>C\<close> rows (the first \<open>k div C * C\<close> rows, in order), followed by exactly one
  \<open>query_error\<close> carrying the message of \<open>e\<close> (or \<open>Unknown error\<close> when \<open>e\<close> is not an
  \<open>Error\<close>), and there is no \<open>query_complete\<close>.
\<close>

theorem row_source_failure:
  assumes C: "0 < C"
    and f: "failure gen = Some e"
    and k: "k = length (concat (yielded gen))"
  shows "\<exists>ds. streamingBody C gen = ds @ [QueryError (messageOr ''Unknown error'' e)]
           \<and> list_all isDataChunk ds
           \<and> length ds = k div C
           \<and> chunks ds = map (\<lambda>i. take C (drop (i * C) (concat (yielded gen)))) [0..<k div C]
           \<and> (\<forall>c \<in> set (chunks ds). length c = C)
           \<and> (\<forall>t c. QueryComplete t c \<notin> set (streamingBody C gen))"
proof -
  let ?rows = "concat (yielded gen)"
  from streamingBody_shape[OF C, of gen] f k obtain ds where
    body: "streamingBody C gen = ds @ [QueryError (messageOr ''Unknown error'' e)]"
    and alld: "list_all isDataChunk ds"
    and dc: "dataChunks ds =
              map (\<lambda>i. (take C (drop (i * C) ?rows), Suc i, min C (k - i * C), min k (Suc i * C)))
                [0..<k div C]"
    by (auto simp: chunkCount_def)
  have len: "length ds = k div C"
    using dataChunks_only[OF alld] dc by simp
  have ch: "chunks ds = map (\<lambda>i. take C (drop (i * C) ?rows)) [0..<k div C]"
    by (simp add: chunks_def dc comp_def)
  have full: "length c = C" if "c \<in> set (chunks ds)" for c
  proof -
    from that obtain i where i: "i < k div C" and c: "c = take C (drop (i * C) ?rows)"
      by (auto simp: ch)
    from i have "Suc i \<le> k div C" by simp
    then have "Suc i * C \<le> k div C * C" by (rule mult_le_mono1)
    also have "\<dots> \<le> k" by simp
    finally have "i * C + C \<le> length ?rows" using k by simp
    then show ?thesis unfolding c by simp
  qed
  have nocomplete: "QueryComplete t c \<notin> set (streamingBody C gen)" for t c
  proof
    assume "QueryComplete t c \<in> set (streamingBody C gen)"
    then have "QueryComplete t c \<in> set ds" unfolding body by simp
    with alld have "isDataChunk (QueryComplete t c)" by (auto simp: list_all_iff)
    then show False by simp
  qed
  from body alld len ch full nocomplete show ?thesis by blast
qed

text \<open>A row source that throws after twelve rows, with chunks of five.\<close>

theorem row_source_failure_witness:
  "\<exists>ds. streamingBody 5 \<lparr>yielded = [replicate 12 JNull], failure = Some (Error ''Out of memory'')\<rparr>
           = ds @ [QueryError ''Out of memory'']
      \<and> list_all isDataChunk ds \<and> length ds = 2
      \<and> (\<forall>c \<in> set (chunks ds). length c = 5)"
  using row_source_failure[OF _ _ refl, of 5
      "\<lparr>yielded = [replicate 12 JNull], failure = Some (Error ''Out of memory'')\<rparr>"
      "Error ''Out of memory''"]
  by auto

section \<open>Strings\<close>

lemma startsWith_prefix: "startsWith s k \<longleftrightarrow> prefix k s"
  unfolding startsWith_def
  by (metis append_eq_conv_conj prefix_def take_is_prefix)

lemma includes_str_sublist: "includes_str s k \<longleftrightarrow> sublist k s"
  by (induction s) (auto simp: startsWith_prefix sublist_Cons_right)

lemma noKeywordIncluded_iff: "noKeywordIncluded ks s \<longleftrightarrow> (\<forall>k \<in> set ks. \<not> sublist k s)"
  by (induction ks) (simp_all add: includes_str_sublist)

lemma validateQuery_iff:
  "validateQuery q \<longleftrightarrow>
     prefix ''select'' (trim (toLowerCase q))
     \<and> (\<forall>k \<in> set dangerousKeywords. \<not> sublist k (trim (toLowerCase q)))"
  by (simp add: validateQuery_def Let_def startsWith_prefix noKeywordIncluded_iff)

lemma isWhiteSpace_lowerChar: "isWhiteSpace (lowerChar c) = isWhiteSpace c"
  by (simp add: lowerChar_def upperCaseLetters_def lowerCaseLetters_def isWhiteSpace_def)

lemma trim_toLowerCase: "trim (toLowerCase s) = toLowerCase (trim s)"
  by (simp add: trim_def toLowerCase_def dropWhile_map rev_map comp_def isWhiteSpace_lowerChar)

lemma trim_fixed:
  assumes "s \<noteq> []" "\<not> isWhiteSpace (hd s)" "\<not> isWhiteSpace (last s)"
  shows "trim s = s"
proof -
  from assms(1,2) have a: "dropWhile isWhiteSpace s = s" by (cases s) simp_all
  from assms(1,3) have "dropWhile isWhiteSpace (rev s) = rev s"
    by (cases "rev s") (simp_all add: hd_rev[symmetric] del: hd_rev)
  with a show ?thesis by (simp add: trim_def)
qed

lemma trim_ends:
  "trim s = [] \<or> (\<not> isWhiteSpace (hd (trim s)) \<and> \<not> isWhiteSpace (last (trim s)))"
proof (cases "dropWhile isWhiteSpace s")
  case Nil
  show ?thesis unfolding trim_def Nil by simp
next
  case (Cons c u)
  have c: "\<not> isWhiteSpace c"
    using hd_dropWhile[of isWhiteSpace s] Cons by simp
  let ?d = "dropWhile isWhiteSpace (rev u @ [c])"
  have d: "?d = (if \<forall>x \<in> set (rev u). isWhiteSpace x then [c] else dropWhile isWhiteSpace (rev u) @ [c])"
    using c by (simp add: dropWhile_append)
  then have ne: "?d \<noteq> []" and l: "last ?d = c" by (simp_all split: if_splits)
  have h: "\<not> isWhiteSpace (hd ?d)"
    using hd_dropWhile[OF ne] .
  have t: "trim s = rev ?d" by (simp add: trim_def Cons)
  show ?thesis
    unfolding t using ne l h c by (simp add: hd_rev last_rev)
qed

lemma trim_Nil: "trim [] = []"
  by (simp add: trim_def)

lemma trim_idem: "trim (trim s) = trim s"
proof (cases "trim s = []")
  case True
  show ?thesis unfolding True by (rule trim_Nil)
next
  case False
  with trim_ends[of s] show ?thesis by (intro trim_fixed) simp_all
qed

lemma digitChar_digit: "d < 10 \<Longrightarrow> digitChar d \<in> set ''0123456789''"
  unfolding digitChar_def by (rule nth_mem) simp

lemma natToString_digits: "natToString n \<noteq> [] \<and> set (natToString n) \<subseteq> set ''0123456789''"
proof (induction n rule: natToString.induct)
  case (1 n)
  show ?case
  proof (cases "n < 10")
    case True
    then show ?thesis using digitChar_digit[of n] by (subst (1 2) natToString.simps) simp
  next
    case False
    have "n mod 10 < 10" by simp
    from digitChar_digit[OF this] 1[OF False] False show ?thesis
      by (subst (1 2) natToString.simps) simp
  qed
qed

lemma sublist_sep:
  assumes "c \<notin> set k"
  shows "sublist k (A @ c # B) \<longleftrightarrow> sublist k A \<or> sublist k B"
proof
  assume "sublist k (A @ c # B)"
  then consider "sublist k A" | "sublist k (c # B)"
    | xs1 xs2 where "k = xs1 @ xs2" "suffix xs1 A" "prefix xs2 (c # B)"
    by (auto simp: sublist_append)
  then show "sublist k A \<or> sublist k B"
  proof cases
    case 1
    then show ?thesis by simp
  next
    case 2
    then have "prefix k (c # B) \<or> sublist k B" by (simp add: sublist_Cons_right)
    moreover have "k = []" if "prefix k (c # B)"
      using that assms by (cases k) auto
    ultimately show ?thesis by auto
  next
    case 3
    have "xs2 = []" using 3(1,3) assms by (cases xs2) auto
    with 3 show ?thesis by auto
  qed
next
  assume "sublist k A \<or> sublist k B"
  then show "sublist k (A @ c # B)"
    by (metis sublist_append sublist_Cons_right)
qed

section \<open>Claims about validation and the limit clause\<close>

text \<open>
  Claim C5. A query text that, lower-cased and trimmed, does not begin with \<open>select\<close>, or
  contains one of the seven denylisted keywords as a substring, is rejected by
  \<open>validateQuery\<close>, and \<open>executeStreamingTool\<close>, \<open>streamExecute\<close> and \<open>execute\<close> then
  finish with an error without sending any query text to the store.
\<close>

theorem rejected_before_store:
  assumes "\<not> prefix ''select'' (trim (toLowerCase q))
           \<or> (\<exists>k \<in> set [''drop'', ''delete'', ''update'', ''insert'', ''alter'', ''create'', ''truncate''].
                 sublist k (trim (toLowerCase q)))"
  shows "validateQuery q = False
       \<and> (\<exists>m. executeStreamingTool db \<lparr>sql = q, limit = l\<rparr> = Some ([QueryError m], []))
       \<and> (\<exists>m. streamExecute stringify db \<lparr>sql = q, limit = l\<rparr> = Some (Inl (Error m), []))
       \<and> (\<exists>m. execute db \<lparr>sql = q, limit = l\<rparr> = Some (ExecuteError m, []))"
proof -
  from assms have v: "\<not> validateQuery q"
    unfolding validateQuery_iff dangerousKeywords_def by blast
  then show ?thesis
    by (simp add: executeStreamingTool_def streamExecute_def execute_def)
qed

text \<open>A query that selects and then drops: \<open>drop\<close> occurs in it.\<close>

theorem rejected_before_store_witness:
  "validateQuery ''SELECT 1; DROP TABLE employees'' = False
   \<and> (\<exists>m. executeStreamingTool exampleDb \<lparr>sql = ''SELECT 1; DROP TABLE employees'', limit = None\<rparr>
          = Some ([QueryError m], []))"
proof -
  have t: "trim (toLowerCase ''SELECT 1; DROP TABLE employees'') = ''select 1; drop table employees''"
    by (simp add: string_defs)
  have "sublist ''drop'' ''select 1; drop table employees''"
    by (simp add: sublist_code)
  then show ?thesis
    using rejected_before_store[of "''SELECT 1; DROP TABLE employees''" exampleDb None]
    unfolding t by simp
qed

lemma applyLimit_cases:
  "applyLimit q l =
     (case l of
        None \<Rightarrow> trim q
      | Some n \<Rightarrow> if 0 < n \<and> \<not> sublist ''limit'' (toLowerCase (trim q))
                  then trim q @ '' LIMIT '' @ numberToString n else trim q)"
  by (auto simp: applyLimit_def Let_def includes_str_sublist split: option.splits)

lemma streamExecute_sent:
  assumes "q \<noteq> []" "validateQuery q"
  shows "\<exists>r. streamExecute stringify db \<lparr>sql = q, limit = l\<rparr> = Some (r, sentTo db (applyLimit q l))"
proof -
  from executeStreamingQuery_total[of 1 db "applyLimit q l"] obtain gen
    where "executeStreamingQuery db (applyLimit q l) 1 = Some (sentTo db (applyLimit q l), gen)"
    by auto
  with assms show ?thesis
    by (cases "failure gen") (simp_all add: streamExecute_def Let_def)
qed

text \<open>
  Claim C8. With a positive limit \<open>n\<close>, the text sent to the store is the trimmed query
  text followed by \<open>LIMIT n\<close> exactly when the lower-cased trimmed text does not contain
  \<open>limit\<close>; with no limit, or with \<open>limit\<close> in the text, it is the trimmed query text
  unchanged. \<open>streamExecute\<close> sends that one text, and \<open>executeStreamingTool\<close> sends it
  after its schema probe.
\<close>

theorem limit_clause:
  assumes valid: "q \<noteq> []" "validateQuery q"
    and ready: "initialized db" "connection db = Some run"
  shows "(\<forall>n. l = Some n \<and> 0 < n \<longrightarrow>
            applyLimit q l = (if sublist ''limit'' (toLowerCase (trim q)) then trim q
                              else trim q @ '' LIMIT '' @ numberToString n))
       \<and> (l = None \<or> sublist ''limit'' (toLowerCase (trim q)) \<longrightarrow> applyLimit q l = trim q)
       \<and> (\<exists>r. streamExecute stringify db \<lparr>sql = q, limit = l\<rparr> = Some (r, [applyLimit q l]))
       \<and> (\<exists>evs. executeStreamingTool db \<lparr>sql = q, limit = l\<rparr> =
              Some (evs, if (\<exists>r. snd (executeQuery db schemaProbe) = Inr r)
                         then [schemaProbe, applyLimit q l] else [schemaProbe]))"
proof -
  have s: "sentTo db x = [x]" for x using ready by (simp add: sentTo_def)
  have one: "\<forall>n. l = Some n \<and> 0 < n \<longrightarrow>
            applyLimit q l = (if sublist ''limit'' (toLowerCase (trim q)) then trim q
                              else trim q @ '' LIMIT '' @ numberToString n)"
    by (simp add: applyLimit_cases)
  have two: "l = None \<or> sublist ''limit'' (toLowerCase (trim q)) \<longrightarrow> applyLimit q l = trim q"
    by (auto simp: applyLimit_cases split: option.splits)
  have three: "\<exists>r. streamExecute stringify db \<lparr>sql = q, limit = l\<rparr> = Some (r, [applyLimit q l])"
    using streamExecute_sent[OF valid, of stringify db l] by (simp add: s)
  have four: "\<exists>evs. executeStreamingTool db \<lparr>sql = q, limit = l\<rparr> =
              Some (evs, if (\<exists>r. snd (executeQuery db schemaProbe) = Inr r)
                         then [schemaProbe, applyLimit q l] else [schemaProbe])"
    using executeStreamingTool_cases[of db "\<lparr>sql = q, limit = l\<rparr>"] valid
    by (auto simp: s)
  from one two three four show ?thesis by blast
qed

text \<open>A limit of three on the example query.\<close>

theorem limit_clause_witness:
  "applyLimit '' select employeeId from employees'' (Some 3) = ''select employeeId from employees LIMIT 3''
   \<and> (\<exists>r. streamExecute exampleStringify exampleDb \<lparr>sql = '' select employeeId from employees'', limit = Some 3\<rparr>
          = Some (r, [''select employeeId from employees LIMIT 3'']))"
proof -
  have ne: "'' select employeeId from employees'' \<noteq> []" by simp
  have v: "validateQuery '' select employeeId from employees''"
    by (simp add: string_defs)
  have i: "initialized exampleDb" and c: "connection exampleDb = Some exampleStore"
    by (simp_all add: exampleDb_def)
  have a: "applyLimit '' select employeeId from employees'' (Some 3) = ''select employeeId from employees LIMIT 3''"
    by (simp add: string_defs natToString.simps)
  from limit_clause[OF ne v i c, of "Some 3" exampleStringify]
  have "\<exists>r. streamExecute exampleStringify exampleDb \<lparr>sql = '' select employeeId from employees'', limit = Some 3\<rparr>
          = Some (r, [applyLimit '' select employeeId from employees'' (Some 3)])"
    by blast
  then show ?thesis unfolding a using a by simp
qed

section \<open>The legacy path and the streaming path\<close>

lemma digit_facts: "\<forall>c \<in> set ''0123456789''. lowerChar c = c \<and> \<not> isWhiteSpace c"
  by (simp add: lowerChar_def upperCaseLetters_def lowerCaseLetters_def isWhiteSpace_def)

lemma toLowerCase_digits: "set D \<subseteq> set ''0123456789'' \<Longrightarrow> toLowerCase D = D"
  unfolding toLowerCase_def using digit_facts by (intro map_idI) blast

lemma digit_not_space: "c \<in> set ''0123456789'' \<Longrightarrow> \<not> isWhiteSpace c"
  using digit_facts by blast

lemma keyword_facts:
  assumes "k \<in> set dangerousKeywords"
  shows "CHR '' '' \<notin> set k" and "\<not> sublist k ''limit''" and "\<not> set k \<subseteq> set ''0123456789''"
proof -
  have "\<forall>k \<in> set dangerousKeywords. CHR '' '' \<notin> set k \<and> \<not> sublist k ''limit''
          \<and> (CHR ''e'' \<in> set k \<or> CHR ''r'' \<in> set k)"
    by (simp add: dangerousKeywords_def sublist_code)
  with assms have f: "CHR '' '' \<notin> set k" "\<not> sublist k ''limit''" "CHR ''e'' \<in> set k \<or> CHR ''r'' \<in> set k"
    by blast+
  show "CHR '' '' \<notin> set k" "\<not> sublist k ''limit''" by (rule f)+
  have "CHR ''e'' \<notin> set ''0123456789''" "CHR ''r'' \<notin> set ''0123456789''" by simp_all
  with f(3) show "\<not> set k \<subseteq> set ''0123456789''" by blast
qed

lemma valid_trim:
  assumes "validateQuery q"
  shows "trim q \<noteq> []" and "\<not> isWhiteSpace (hd (trim q))"
    and "prefix ''select'' (toLowerCase (trim q))"
    and "\<forall>k \<in> set dangerousKeywords. \<not> sublist k (toLowerCase (trim q))"
proof -
  from assms show p: "prefix ''select'' (toLowerCase (trim q))"
    and "\<forall>k \<in> set dangerousKeywords. \<not> sublist k (toLowerCase (trim q))"
    by (simp_all add: validateQuery_iff trim_toLowerCase)
  from p show ne: "trim q \<noteq> []" by (auto simp: toLowerCase_def)
  with trim_ends[of q] show "\<not> isWhiteSpace (hd (trim q))" by simp
qed

lemma valid_of_trimmed:
  assumes "trim s = s" "prefix ''select'' (toLowerCase s)"
    "\<forall>k \<in> set dangerousKeywords. \<not> sublist k (toLowerCase s)"
  shows "validateQuery s"
  using assms by (simp add: validateQuery_iff trim_toLowerCase)

lemma limited_text:
  assumes v: "validateQuery q" and n: "0 < n"
  defines "X \<equiv> trim q @ '' LIMIT '' @ numberToString n"
  shows "trim X = X" and "sublist ''limit'' (toLowerCase X)" and "validateQuery X"
proof -
  let ?t = "trim q"
  let ?D = "natToString (nat n)"
  note t = valid_trim[OF v]
  have D: "numberToString n = ?D" using n by (simp add: numberToString_def)
  have Dd: "?D \<noteq> []" "set ?D \<subseteq> set ''0123456789''"
    using natToString_digits[of "nat n"] by simp_all
  have X: "X = ?t @ '' LIMIT '' @ ?D" by (simp add: X_def D)
  have hdX: "hd X = hd ?t" using t(1) by (simp add: X)
  have lastX: "last X = last ?D" using Dd(1) by (simp add: X)
  have "last ?D \<in> set ?D" using Dd(1) by simp
  then have "\<not> isWhiteSpace (last X)" using Dd(2) digit_not_space lastX by auto
  moreover have "X \<noteq> []" using t(1) by (simp add: X)
  ultimately show tr: "trim X = X" using t(2) hdX by (intro trim_fixed) simp_all
  have low: "toLowerCase X = toLowerCase ?t @ CHR '' '' # (''limit'' @ CHR '' '' # ?D)"
    unfolding X using toLowerCase_digits[OF Dd(2)]
    by (simp add: toLowerCase_def lowerChar_def upperCaseLetters_def lowerCaseLetters_def)
  have "sublist ''limit'' ((toLowerCase ?t @ '' '') @ ''limit'' @ (CHR '' '' # ?D))"
    by (rule sublist_appendI)
  then show "sublist ''limit'' (toLowerCase X)" by (simp add: low)
  have pre: "prefix ''select'' (toLowerCase X)"
    unfolding low using t(3) by (rule prefix_prefix)
  have nokw: "\<not> sublist k (toLowerCase X)" if k: "k \<in> set dangerousKeywords" for k
  proof -
    note kf = keyword_facts[OF k]
    have "\<not> sublist k ?D" using kf(3) Dd(2) set_mono_sublist[of k ?D] by blast
    moreover have "\<not> sublist k (toLowerCase ?t)" using t(4) k by blast
    ultimately show ?thesis
      unfolding low sublist_sep[OF kf(1)] using kf(2) by simp
  qed
  from tr pre nokw show "validateQuery X" by (intro valid_of_trimmed) simp_all
qed

lemma applyLimit_again:
  assumes v: "validateQuery q"
  shows "applyLimit q l \<noteq> []"
    and "validateQuery (applyLimit q l)"
    and "applyLimit (applyLimit q l) (case l of None \<Rightarrow> None | Some n \<Rightarrow> if n \<noteq> 0 then Some n else None)
           = applyLimit q l"
proof -
  note t = valid_trim[OF v]
  have vt: "validateQuery (trim q)"
    using t(3,4) by (intro valid_of_trimmed) (simp_all add: trim_idem)
  have "(applyLimit q l = trim q
        \<and> (l = None \<or> (\<exists>n. l = Some n \<and> (\<not> 0 < n \<or> sublist ''limit'' (toLowerCase (trim q))))))
      \<or> (\<exists>n. l = Some n \<and> 0 < n \<and> \<not> sublist ''limit'' (toLowerCase (trim q))
            \<and> applyLimit q l = trim q @ '' LIMIT '' @ numberToString n)"
    by (cases l) (simp_all add: applyLimit_cases)
  then consider (plain) "applyLimit q l = trim q"
      "l = None \<or> (\<exists>n. l = Some n \<and> (\<not> 0 < n \<or> sublist ''limit'' (toLowerCase (trim q))))"
    | (limited) n where "l = Some n" "0 < n" "\<not> sublist ''limit'' (toLowerCase (trim q))"
        "applyLimit q l = trim q @ '' LIMIT '' @ numberToString n"
    by blast
  then have "applyLimit q l \<noteq> [] \<and> validateQuery (applyLimit q l)
     \<and> applyLimit (applyLimit q l) (case l of None \<Rightarrow> None | Some n \<Rightarrow> if n \<noteq> 0 then Some n else None)
           = applyLimit q l"
  proof cases
    case plain
    then show ?thesis using t(1) vt
      by (auto simp: applyLimit_cases trim_idem split: option.splits)
  next
    case limited
    note lt = limited_text[OF v limited(2)]
    have "applyLimit q l \<noteq> []" using t(1) by (simp add: limited(4))
    moreover have "validateQuery (applyLimit q l)" using lt(3) by (simp add: limited(4))
    moreover have "applyLimit (trim q @ '' LIMIT '' @ numberToString n) (Some n)
        = trim q @ '' LIMIT '' @ numberToString n"
      using lt(1,2) limited(2) by (simp add: applyLimit_cases)
    then have "applyLimit (applyLimit q l) (Some n) = applyLimit q l"
      by (simp only: limited(4))
    ultimately show ?thesis using limited(1,2) by simp
  qed
  then show "applyLimit q l \<noteq> []"
    and "validateQuery (applyLimit q l)"
    and "applyLimit (applyLimit q l) (case l of None \<Rightarrow> None | Some n \<Rightarrow> if n \<noteq> 0 then Some n else None)
           = applyLimit q l"
    by simp_all
qed

lemma streamingBody_concat:
  assumes C: "0 < C" and f: "failure gen = None"
  shows "concat (chunks (streamingBody C gen)) = concat (yielded gen)"
proof -
  have "concat (chunks (streamingBody C gen))
      = take ((length (concat (yielded gen)) + C - 1) div C * C) (concat (yielded gen))"
    by (simp add: streamingBody_chunks[OF C] f chunkCount_def concat_slices)
  then show ?thesis using ceil_upper[OF C, of "length (concat (yielded gen))"] by simp
qed

lemma readRows_ok:
  assumes "initialized db" "connection db = Some run"
    "run q = Inr (cols, raw)" "convertItems (localTZA db) raw = Inr rows"
  shows "readRows db q = Inr rows" and "snd (executeQuery db q) = Inr \<lparr>data = rows, columns = cols, rowCount = length rows\<rparr>"
    and "sentTo db q = [q]"
  using assms by (simp_all add: readRows_def executeQuery_def sentTo_def)

lemma executeStreamingQuery_ok:
  assumes "0 < n" "initialized db" "connection db = Some run"
    "run q = Inr (cols, raw)" "convertItems (localTZA db) raw = Inr rows"
  shows "\<exists>gen. executeStreamingQuery db q n = Some ([q], gen)
           \<and> concat (yielded gen) = rows \<and> failure gen = None"
  using executeStreamingQuery_total[OF assms(1), of db q] readRows_ok[OF assms(2-5)]
  by auto

text \<open>
  Claim C10. For a query text that passes validation, on an initialised database where
  the store answers the schema probe and the query, \<open>execute\<close> and \<open>streamExecute\<close> both
  finish, both send the same query text to the store, and deliver the same rows in the
  same order: the chunks of the \<open>data_chunk\<close> events in the event list of \<open>execute\<close>, put
  end to end, are the rows read, \<open>streamExecute\<close> has one content entry per such row, in
  that order, holding \<open>JSON.stringify\<close> of the row, and its \<open>totalRows\<close> is their number.
\<close>

theorem legacy_and_streaming_agree:
  assumes valid: "q \<noteq> []" "validateQuery q"
    and ready: "initialized db" "connection db = Some run"
    and probe: "run schemaProbe = Inr (cols0, raw0)" "convertItems (localTZA db) raw0 = Inr rows0"
    and main: "run (applyLimit q l) = Inr (cols, raw)" "convertItems (localTZA db) raw = Inr rows"
  shows "\<exists>evs content.
           execute db \<lparr>sql = q, limit = l\<rparr> = Some (ExecuteEvents evs, [schemaProbe, applyLimit q l])
         \<and> streamExecute stringify db \<lparr>sql = q, limit = l\<rparr>
             = Some (Inr (StreamResult content (length (concat (chunks evs)))), [applyLimit q l])
         \<and> concat (chunks evs) = rows
         \<and> content = map (\<lambda>row. TextContent (stringify row)) (concat (chunks evs))"
proof -
  let ?sql1 = "applyLimit q l"
  let ?l1 = "case l of None \<Rightarrow> None | Some n \<Rightarrow> if n \<noteq> 0 then Some n else None"
  let ?in1 = "\<lparr>sql = ?sql1, limit = ?l1\<rparr>"
  have C: "0 < streamChunkSize" by (simp add: streamChunkSize_def)
  note again = applyLimit_again[OF valid(2), of l]
  note p = readRows_ok[OF ready probe]
  note m = readRows_ok[OF ready main]
  from executeStreamingQuery_ok[OF _ ready main, of dbChunkSize] obtain gen50
    where g50: "executeStreamingQuery db ?sql1 dbChunkSize = Some ([?sql1], gen50)"
      "concat (yielded gen50) = rows" "failure gen50 = None"
    by (auto simp: dbChunkSize_def)
  from executeStreamingQuery_ok[OF _ ready main, of 1] obtain gen1
    where g1: "executeStreamingQuery db ?sql1 1 = Some ([?sql1], gen1)"
      "concat (yielded gen1) = rows" "failure gen1 = None"
    by auto
  have tool: "executeStreamingTool db ?in1 =
      Some (QueryStart ?sql1 cols0 # streamingBody streamChunkSize gen50, [schemaProbe, ?sql1])"
    using again p g50
    by (simp add: executeStreamingTool_def Let_def executeQuery_def ready probe)
  have ex: "execute db \<lparr>sql = q, limit = l\<rparr> =
      Some (ExecuteEvents (QueryStart ?sql1 cols0 # streamingBody streamChunkSize gen50),
            [schemaProbe, ?sql1])"
    using valid tool by (simp add: execute_def Let_def)
  have cat: "concat (chunks (QueryStart ?sql1 cols0 # streamingBody streamChunkSize gen50)) = rows"
    using streamingBody_concat[OF C g50(3)] g50(2) by simp
  have st: "streamExecute stringify db \<lparr>sql = q, limit = l\<rparr> =
      Some (Inr (StreamResult (map (\<lambda>row. TextContent (stringify row)) rows) (length rows)),
            [?sql1])"
    using valid g1 by (simp add: streamExecute_def Let_def)
  from ex st cat show ?thesis by simp
qed

text \<open>The example query on the example database, without a limit.\<close>

theorem legacy_and_streaming_agree_witness:
  "\<exists>evs content.
     execute exampleDb exampleInput
       = Some (ExecuteEvents evs, [schemaProbe, ''select employeeId from employees''])
     \<and> streamExecute exampleStringify exampleDb exampleInput
         = Some (Inr (StreamResult content (length (concat (chunks evs)))),
                 [''select employeeId from employees''])
     \<and> length (concat (chunks evs)) = 7
     \<and> content = map (\<lambda>row. TextContent (exampleStringify row)) (concat (chunks evs))"
proof -
  have ne: "'' select employeeId from employees'' \<noteq> []" by simp
  have v: "validateQuery '' select employeeId from employees''"
    by (simp add: string_defs)
  have i: "initialized exampleDb" and c: "connection exampleDb = Some exampleStore"
    by (simp_all add: exampleDb_def)
  have a: "applyLimit '' select employeeId from employees'' None = ''select employeeId from employees''"
    by (simp add: string_defs)
  have p1: "exampleStore schemaProbe = Inr ([''employeeId''], [])"
    by (simp add: exampleStore_def schemaProbe_def)
  have p2: "convertItems (localTZA exampleDb) [] = Inr []" by simp
  have m1: "exampleStore (applyLimit '' select employeeId from employees'' None)
      = Inr ([''employeeId''], exampleRows)"
    unfolding a by (simp add: exampleStore_def)
  have m2: "convertItems (localTZA exampleDb) exampleRows =
      Inr [JObj [(''employeeId'', JNum 1)], JObj [(''employeeId'', JNum 2)],
           JObj [(''employeeId'', JNum 3)], JObj [(''employeeId'', JNum 4)],
           JObj [(''employeeId'', JNum 5)], JObj [(''employeeId'', JNum 6)],
           JObj [(''employeeId'', JNum 7)]]"
    by (simp add: exampleRows_def)
  from legacy_and_streaming_agree[OF ne v i c p1 p2 m1 m2, of exampleStringify]
  show ?thesis unfolding a exampleInput_def by auto
qed

section \<open>Claims about the session registry\<close>

lemma map_of_deleteAll: "map_of (deleteAll ids ss) k = (if k \<in> set ids then None else map_of ss k)"
  by (induction ids arbitrary: ss) (simp_all add: delete_conv)

text \<open>
  Claim C9. \<open>DELETE /mcp/:sessionId\<close> on an id that is in the registry removes that
  session, whatever its age, leaves every other session as it was, and answers with
  success; on an id that is not in the registry, as is an expired id once
  \<open>cleanupExpiredSessions\<close> has swept it, it answers 404 with \<open>success: false\<close> and a
  \<open>not found\<close> message, and leaves the registry unchanged.
\<close>

theorem explicit_termination:
  "(map_of ss sessionId \<noteq> None \<longrightarrow>
      deleteSession sessionId ss =
        (AList.delete sessionId ss,
         \<lparr>status = 200, success = True,
          message = ''Session '' @ sessionId @ '' terminated successfully''\<rparr>)
      \<and> map_of (fst (deleteSession sessionId ss)) sessionId = None
      \<and> (\<forall>other. other \<noteq> sessionId \<longrightarrow>
            map_of (fst (deleteSession sessionId ss)) other = map_of ss other))
   \<and> (map_of ss sessionId = None \<longrightarrow>
        deleteSession sessionId ss =
          (ss, \<lparr>status = 404, success = False, message = ''Session '' @ sessionId @ '' not found''\<rparr>))
   \<and> (\<forall>session. map_of ss sessionId = Some session \<and> now - lastAccessed session > sessionTTL \<longrightarrow>
        deleteSession sessionId (cleanupExpiredSessions now sessionTTL ss) =
          (cleanupExpiredSessions now sessionTTL ss,
           \<lparr>status = 404, success = False, message = ''Session '' @ sessionId @ '' not found''\<rparr>))"
proof -
  have swept: "map_of (cleanupExpiredSessions now sessionTTL ss) sessionId = None"
    if s: "map_of ss sessionId = Some session" and old: "now - lastAccessed session > sessionTTL"
    for session
  proof -
    from s have "(sessionId, session) \<in> set ss" by (rule map_of_SomeD)
    with old have "sessionId \<in> set (map fst (filter (\<lambda>(sessionId, session).
        now - lastAccessed session > sessionTTL) ss))"
      by force
    then show ?thesis by (simp add: cleanupExpiredSessions_def map_of_deleteAll)
  qed
  show ?thesis
    using swept by (auto simp: deleteSession_def delete_conv)
qed

text \<open>
  A registry of two sessions: deleting \<open>a1\<close> leaves \<open>b2\<close>, and after a sweep at time
  \<open>2000000\<close> with a TTL of \<open>1800000\<close> the id \<open>a1\<close> is not found.
\<close>

theorem explicit_termination_witness:
  "deleteSession ''a1'' exampleSessions =
     ([(''b2'', \<lparr>endpoint = 2, createdAt = 1000, lastAccessed = 2000000\<rparr>)],
      \<lparr>status = 200, success = True, message = ''Session a1 terminated successfully''\<rparr>)
   \<and> deleteSession ''a1'' (cleanupExpiredSessions 2000000 1800000 exampleSessions) =
       (cleanupExpiredSessions 2000000 1800000 exampleSessions,
        \<lparr>status = 404, success = False, message = ''Session a1 not found''\<rparr>)"
proof -
  have k: "map_of exampleSessions ''a1'' = Some \<lparr>endpoint = 1, createdAt = 0, lastAccessed = 0\<rparr>"
    by (simp add: exampleSessions_def)
  have d: "AList.delete ''a1'' exampleSessions
      = [(''b2'', \<lparr>endpoint = 2, createdAt = 1000, lastAccessed = 2000000\<rparr>)]"
    by (simp add: exampleSessions_def AList.delete_eq)
  have e: "2000000 - lastAccessed \<lparr>endpoint = 1, createdAt = 0, lastAccessed = 0\<rparr> > (1800000::int)"
    by simp
  note T = explicit_termination[where ss = exampleSessions and sessionId = "''a1''"
      and now = 2000000 and sessionTTL = 1800000]
  have kn: "map_of exampleSessions ''a1'' \<noteq> None" by (simp add: k)
  from T[THEN conjunct1, rule_format, OF kn]
  have one: "deleteSession ''a1'' exampleSessions =
        (AList.delete ''a1'' exampleSessions,
         \<lparr>status = 200, success = True,
          message = ''Session '' @ ''a1'' @ '' terminated successfully''\<rparr>)"
    by (rule conjunct1)
  from T[THEN conjunct2, THEN conjunct2, rule_format, OF conjI[OF k e]]
  have two: "deleteSession ''a1'' (cleanupExpiredSessions 2000000 1800000 exampleSessions) =
          (cleanupExpiredSessions 2000000 1800000 exampleSessions,
           \<lparr>status = 404, success = False, message = ''Session '' @ ''a1'' @ '' not found''\<rparr>)" .
  from one two show ?thesis by (simp add: d)
qed

section \<open>The date normalisation\<close>

lemmas date_defs = convertDate_def newDate_def setDate_def getDate_def TimeClip_def UTC_def
  LocalTime_def MakeDate_def MakeDay_def DateFromTime_def MonthFromTime_def YearFromTime_def
  civilFromDays_def daysFromCivil_def TimeWithinDay_def Day_def msPerDay_def isoDate_def pad_def
  digitChar_def

text \<open>
  Claim C6. The same stored date, 18276 days after 1970-01-01 (2020-01-15), is
  normalised to \<open>2020-01-15\<close> in a process whose time zone is UTC and to \<open>2020-01-14\<close> in
  a process whose time zone is UTC+05:30: the string depends on the process environment.
\<close>

theorem date_depends_on_time_zone:
  "convertBigIntsToNumbers 0 (JArr [JObj [(''startDate'', JObj [(''days'', JNum 18276)])]])
     = Inr (JArr [JObj [(''startDate'', JStr ''2020-01-15'')]])
   \<and> convertBigIntsToNumbers 19800000 (JArr [JObj [(''startDate'', JObj [(''days'', JNum 18276)])]])
     = Inr (JArr [JObj [(''startDate'', JStr ''2020-01-14'')]])"
  by (simp add: date_defs natToString.simps Let_def cong: let_weak_cong)

end
